theory Spec2Isabelle
  imports Main "HOL-Library.Sublist" "HOL-Library.Multiset"
begin

section \<open>JavaScript values, as \<open>JSON.parse\<close> produces them\<close>

text \<open>
  The pipeline of \<^verbatim>\<open>email-poller.js\<close> works on whatever \<^verbatim>\<open>JSON.parse\<close> returns for the
  oracle's text, so the data model is the JSON value, not a typed record. An object is an
  association list of its own properties (\<^verbatim>\<open>JSON.parse\<close> creates own data properties only).
  Strings are lists of 8-bit characters, one \<open>char\<close> per code unit. A number is modelled for
  the integers (the only thing the code does with a number is to test its truthiness, compare
  it with \<open>8\<close> and print it).
\<close>

datatype jsval =
    Undefined
  | Null
  | Bool bool
  | Num int
  | Str string
  | Arr "jsval list"
  | Obj "(string \<times> jsval) list"

text \<open>Exceptions carry the \<^verbatim>\<open>message\<close> the handlers read.\<close>

datatype exn =
    TypeError string
  | ReferenceError string
  | SyntaxError string
  | Error string

fun message :: "exn \<Rightarrow> string" where
  "message (TypeError m) = m"
| "message (ReferenceError m) = m"
| "message (SyntaxError m) = m"
| "message (Error m) = m"

text \<open>\<^verbatim>\<open>!v\<close> is \<open>\<not> truthy v\<close>.\<close>

fun truthy :: "jsval \<Rightarrow> bool" where
  "truthy Undefined = False"
| "truthy Null = False"
| "truthy (Bool b) = b"
| "truthy (Num n) = (n \<noteq> 0)"
| "truthy (Str s) = (s \<noteq> [])"
| "truthy (Arr xs) = True"
| "truthy (Obj kvs) = True"

text \<open>
  \<^verbatim>\<open>v.name\<close>: a \<^verbatim>\<open>TypeError\<close> on \<^verbatim>\<open>undefined\<close> and \<^verbatim>\<open>null\<close> (\<open>getProp\<close>), and on any
  other value (\<open>ownProp\<close>) the own property of an object, the \<^verbatim>\<open>length\<close> of a string or
  an array, and \<^verbatim>\<open>undefined\<close> otherwise. The code reads
  the names \<^verbatim>\<open>lineItems\<close>, \<^verbatim>\<open>originalBillNumber\<close>, \<^verbatim>\<open>nardaNumber\<close>, \<^verbatim>\<open>invoiceNumber\<close> and
  \<^verbatim>\<open>length\<close>, none of which the prototypes of \<^verbatim>\<open>Object\<close>, \<^verbatim>\<open>Number\<close> or \<^verbatim>\<open>Boolean\<close> define.
\<close>

fun ownProp :: "jsval \<Rightarrow> string \<Rightarrow> jsval" where
  "ownProp (Obj kvs) k = (case map_of kvs k of None \<Rightarrow> Undefined | Some v \<Rightarrow> v)"
| "ownProp (Str s) k = (if k = ''length'' then Num (int (length s)) else Undefined)"
| "ownProp (Arr xs) k = (if k = ''length'' then Num (int (length xs)) else Undefined)"
| "ownProp v k = Undefined"

definition getProp :: "jsval \<Rightarrow> string \<Rightarrow> exn + jsval" where
  "getProp v k =
     (if v = Undefined then Inl (TypeError (''Cannot read properties of undefined (reading '' @ k @ '')''))
      else if v = Null then Inl (TypeError (''Cannot read properties of null (reading '' @ k @ '')''))
      else Inr (ownProp v k))"

text \<open>Decimal numerals, as \<^verbatim>\<open>String(n)\<close> prints an integer.\<close>

fun showNat :: "nat \<Rightarrow> string" where
  "showNat n =
     (if n < 10 then [''0123456789'' ! n]
      else showNat (n div 10) @ [''0123456789'' ! (n mod 10)])"

definition showInt :: "int \<Rightarrow> string" where
  "showInt n = (if n < 0 then CHR ''-'' # showNat (nat (- n)) else showNat (nat n))"

text \<open>\<^verbatim>\<open>Array.prototype.join\<close> on strings already converted.\<close>

fun join :: "string \<Rightarrow> string list \<Rightarrow> string" where
  "join sep [] = []"
| "join sep [x] = x"
| "join sep (x # y # ys) = x @ sep @ join sep (y # ys)"

text \<open>
  \<^verbatim>\<open>ToString\<close>, which a template literal and \<^verbatim>\<open>RegExp.prototype.test\<close> apply to their
  argument. An array joins its elements with commas (\<^verbatim>\<open>undefined\<close> and \<^verbatim>\<open>null\<close> print
  as the empty string). A plain object prints as \<^verbatim>\<open>[object Object]\<close>; when the JSON text gave
  it an own \<^verbatim>\<open>toString\<close> property, that value is not callable and the conversion throws.
\<close>

fun toStr :: "jsval \<Rightarrow> exn + string"
  and toStrs :: "jsval list \<Rightarrow> exn + string list" where
  "toStr Undefined = Inr ''undefined''"
| "toStr Null = Inr ''null''"
| "toStr (Bool b) = Inr (if b then ''true'' else ''false'')"
| "toStr (Num n) = Inr (showInt n)"
| "toStr (Str s) = Inr s"
| "toStr (Arr xs) = (case toStrs xs of Inl e \<Rightarrow> Inl e | Inr ss \<Rightarrow> Inr (join '','' ss))"
| "toStr (Obj kvs) =
     (if map_of kvs ''toString'' \<noteq> None
      then Inl (TypeError ''Cannot convert object to primitive value'')
      else Inr ''[object Object]'')"
| "toStrs [] = Inr []"
| "toStrs (x # xs) =
     (case (if x = Undefined \<or> x = Null then Inr [] else toStr x) of
        Inl e \<Rightarrow> Inl e
      | Inr s \<Rightarrow> (case toStrs xs of Inl e \<Rightarrow> Inl e | Inr ss \<Rightarrow> Inr (s # ss)))"

section \<open>The bill-number validator\<close>

definition isDigit :: "char \<Rightarrow> bool" where
  "isDigit c = (48 \<le> (of_char c :: nat) \<and> (of_char c :: nat) \<le> 57)"

text \<open>The regular expression \<^verbatim>\<open>/^\d{8}$/\<close> on a string.\<close>

definition matches8Digits :: "string \<Rightarrow> bool" where
  "matches8Digits s = (length s = 8 \<and> list_all isDigit s)"

text \<open>\<^verbatim>\<open>/^\d{8}$/.test(v)\<close>: the argument is converted to a string first.\<close>

definition regexTest :: "jsval \<Rightarrow> exn + bool" where
  "regexTest v = (case toStr v of Inl e \<Rightarrow> Inl e | Inr s \<Rightarrow> Inr (matches8Digits s))"

text \<open>
  The condition of line 266,
  \<^verbatim>\<open>!billNumber || billNumber.length !== 8 || !/^\d{8}$/.test(billNumber)\<close>,
  evaluated left to right.
\<close>

definition billNumberInvalid :: "jsval \<Rightarrow> exn + bool" where
  "billNumberInvalid billNumber =
     (if \<not> truthy billNumber then Inr True
      else if ownProp billNumber ''length'' \<noteq> Num 8 then Inr True
      else (case regexTest billNumber of Inl e \<Rightarrow> Inl e | Inr ok \<Rightarrow> Inr (\<not> ok)))"

text \<open>An element of \<^verbatim>\<open>invalidItems\<close> (lines 267 to 272).\<close>

record invalidItem =
  item_index :: nat
  item_narda :: jsval
  item_billNumber :: jsval
  item_length :: jsval

text \<open>The loop of lines 262 to 274, from index \<open>i\<close> on.\<close>

fun checkItems :: "nat \<Rightarrow> jsval list \<Rightarrow> exn + invalidItem list" where
  "checkItems i [] = Inr []"
| "checkItems i (item # rest) =
     (case getProp item ''originalBillNumber'' of
        Inl e \<Rightarrow> Inl e
      | Inr billNumber \<Rightarrow>
          (case billNumberInvalid billNumber of
             Inl e \<Rightarrow> Inl e
           | Inr bad \<Rightarrow>
               (case checkItems (Suc i) rest of
                  Inl e \<Rightarrow> Inl e
                | Inr others \<Rightarrow>
                    if bad
                    then Inr (\<lparr> item_index = i,
                               item_narda = ownProp item ''nardaNumber'',
                               item_billNumber = (if truthy billNumber then billNumber else Str ''(empty)''),
                               item_length = (if truthy billNumber then ownProp billNumber ''length'' else Num 0) \<rparr>
                              # others)
                    else Inr others)))"

text \<open>One entry of \<^verbatim>\<open>details\<close> (line 278).\<close>

definition renderItem :: "invalidItem \<Rightarrow> exn + string" where
  "renderItem it =
     (case toStr (item_narda it) of
        Inl e \<Rightarrow> Inl e
      | Inr narda \<Rightarrow>
          (case toStr (item_billNumber it) of
             Inl e \<Rightarrow> Inl e
           | Inr bill \<Rightarrow>
               (case toStr (item_length it) of
                  Inl e \<Rightarrow> Inl e
                | Inr len \<Rightarrow>
                    Inr (''Line '' @ showNat (item_index it + 1) @ '' (NARDA: '' @ narda @ ''): \"''
                         @ bill @ ''\" is '' @ len @ '' digits (need 8)''))))"

fun renderItems :: "invalidItem list \<Rightarrow> exn + string list" where
  "renderItems [] = Inr []"
| "renderItems (it # its) =
     (case renderItem it of
        Inl e \<Rightarrow> Inl e
      | Inr s \<Rightarrow> (case renderItems its of Inl e \<Rightarrow> Inl e | Inr ss \<Rightarrow> Inr (s # ss)))"

text \<open>The value \<^verbatim>\<open>validateBillNumbers\<close> returns.\<close>

datatype validationResult =
    ValidResult
  | InvalidResult (reason: string) (invalidItems: "invalidItem list")

definition valid :: "validationResult \<Rightarrow> bool" where
  "valid r = (r = ValidResult)"

text \<open>\<^verbatim>\<open>validateBillNumbers\<close> (lines 255 to 289).\<close>

definition validateBillNumbers :: "jsval \<Rightarrow> exn + validationResult" where
  "validateBillNumbers extractedData =
     (if \<not> truthy extractedData then Inr ValidResult
      else case getProp extractedData ''lineItems'' of
        Inl e \<Rightarrow> Inl e
      | Inr (Arr lineItems) \<Rightarrow>
          (case checkItems 0 lineItems of
             Inl e \<Rightarrow> Inl e
           | Inr [] \<Rightarrow> Inr ValidResult
           | Inr (it # its) \<Rightarrow>
               (case renderItems (it # its) of
                  Inl e \<Rightarrow> Inl e
                | Inr details \<Rightarrow>
                    Inr (InvalidResult (''Invalid bill numbers found: '' @ join ''; '' details) (it # its))))
      | Inr other \<Rightarrow> Inr ValidResult)"

subsection \<open>The bill-number rule as the specification words it\<close>

text \<open>
  The rule of the specification, to compare the validator with: an entry is in order when
  its bill-number field is present, non-empty and exactly 8 ASCII digits; the failing
  indices are the 0-based positions of the entries not in order; the reason names, for each
  of them, its 1-based number, its NARDA identifier, the value in quotes (the marker
  \<^verbatim>\<open>(empty)\<close> for an absent or empty one) and its length. \<open>plainLineItem\<close> is the shape of
  an entry in the specification's data model: the bill number absent, \<^verbatim>\<open>null\<close> or a string,
  the NARDA identifier absent or a string. \<open>mkRecord\<close> is the record lines 267 to 272 push
  for the entry at index \<open>i\<close>.
\<close>

definition spec_billOk :: "jsval \<Rightarrow> bool" where
  "spec_billOk item =
     (case ownProp item ''originalBillNumber'' of
        Str s \<Rightarrow> s \<noteq> [] \<and> length s = 8 \<and> list_all isDigit s
      | _ \<Rightarrow> False)"

definition spec_failingIndices :: "jsval list \<Rightarrow> nat list" where
  "spec_failingIndices lineItems = filter (\<lambda>i. \<not> spec_billOk (lineItems ! i)) [0..<length lineItems]"

definition plainLineItem :: "jsval \<Rightarrow> bool" where
  "plainLineItem item =
     (item \<noteq> Undefined \<and> item \<noteq> Null
      \<and> (case ownProp item ''originalBillNumber'' of
            Undefined \<Rightarrow> True | Null \<Rightarrow> True | Str s \<Rightarrow> True | _ \<Rightarrow> False)
      \<and> (case ownProp item ''nardaNumber'' of
            Undefined \<Rightarrow> True | Str s \<Rightarrow> True | _ \<Rightarrow> False))"

definition spec_reasonLine :: "nat \<Rightarrow> jsval \<Rightarrow> string" where
  "spec_reasonLine i item =
     ''Line '' @ showNat (i + 1)
     @ '' (NARDA: '' @ (case ownProp item ''nardaNumber'' of Str n \<Rightarrow> n | _ \<Rightarrow> ''undefined'')
     @ ''): \"'' @ (case ownProp item ''originalBillNumber'' of Str s \<Rightarrow> (if s = [] then ''(empty)'' else s) | _ \<Rightarrow> ''(empty)'')
     @ ''\" is '' @ (case ownProp item ''originalBillNumber'' of Str s \<Rightarrow> showNat (length s) | _ \<Rightarrow> ''0'')
     @ '' digits (need 8)''"

definition spec_reason :: "jsval list \<Rightarrow> string" where
  "spec_reason lineItems =
     ''Invalid bill numbers found: ''
     @ join ''; '' (map (\<lambda>i. spec_reasonLine i (lineItems ! i)) (spec_failingIndices lineItems))"

definition mkRecord :: "nat \<Rightarrow> jsval \<Rightarrow> invalidItem" where
  "mkRecord i item =
     (let billNumber = ownProp item ''originalBillNumber'' in
      \<lparr> item_index = i,
        item_narda = ownProp item ''nardaNumber'',
        item_billNumber = (if truthy billNumber then billNumber else Str ''(empty)''),
        item_length = (if truthy billNumber then ownProp billNumber ''length'' else Num 0) \<rparr>)"

section \<open>String methods of JavaScript\<close>

text \<open>The first position at which \<open>t\<close> occurs in \<open>s\<close>.\<close>

fun findSub :: "string \<Rightarrow> string \<Rightarrow> nat option" where
  "findSub t [] = (if t = [] then Some 0 else None)"
| "findSub t (c # s) = (if prefix t (c # s) then Some 0 else map_option Suc (findSub t s))"

text \<open>\<^verbatim>\<open>s.includes(t)\<close>.\<close>

definition js_includes :: "string \<Rightarrow> string \<Rightarrow> bool" where
  "js_includes s t = (findSub t s \<noteq> None)"

text \<open>\<^verbatim>\<open>s.indexOf(t, pos)\<close>: the search starts at \<open>pos\<close>, and the result is \<open>-1\<close> when there is none.\<close>

definition js_indexOf :: "string \<Rightarrow> string \<Rightarrow> nat \<Rightarrow> int" where
  "js_indexOf s t pos =
     (case findSub t (drop pos s) of
        None \<Rightarrow> - 1
      | Some i \<Rightarrow> int (min pos (length s) + i))"

text \<open>
  \<^verbatim>\<open>s.substring(a, b)\<close>: both arguments are clamped to \<open>0 .. length s\<close> (a negative one
  counts as \<open>0\<close>) and swapped when the first is the larger.
\<close>

definition js_substring :: "string \<Rightarrow> int \<Rightarrow> int \<Rightarrow> string" where
  "js_substring s a b =
     (let n = int (length s);
          a' = max 0 (min a n);
          b' = max 0 (min b n);
          lo = min a' b';
          hi = max a' b'
      in take (nat (hi - lo)) (drop (nat lo) s))"

text \<open>
  \<^verbatim>\<open>s.trim()\<close> removes white space and line terminators at both ends; among the code units
  below 256 these are 9 to 13, 32 and 160.
\<close>

definition isWhiteSpace :: "char \<Rightarrow> bool" where
  "isWhiteSpace c = ((of_char c :: nat) \<in> set [9, 10, 11, 12, 13, 32, 160])"

definition js_trim :: "string \<Rightarrow> string" where
  "js_trim s = rev (dropWhile isWhiteSpace (rev (dropWhile isWhiteSpace s)))"

text \<open>
  \<^verbatim>\<open>s.toLowerCase()\<close> on code units below 256: the letters A to Z, and the Latin-1 capitals
  192 to 222 but for the multiplication sign 215, move up by 32.
\<close>

definition lowerChar :: "char \<Rightarrow> char" where
  "lowerChar c =
     (let n = (of_char c :: nat)
      in if (65 \<le> n \<and> n \<le> 90) \<or> (192 \<le> n \<and> n \<le> 222 \<and> n \<noteq> 215) then char_of (n + 32) else c)"

definition js_toLowerCase :: "string \<Rightarrow> string" where
  "js_toLowerCase s = map lowerChar s"

text \<open>
  The extraction of the JSON text from the oracle's answer (lines 649 to 654, and again 675
  to 680): when the answer holds the marker of a fenced \<^verbatim>\<open>json\<close> block, the text between
  the marker and the next fence, trimmed; otherwise the answer as it is.
\<close>

definition stripJsonFence :: "string \<Rightarrow> string" where
  "stripJsonFence analysis =
     (if js_includes analysis ''```json''
      then (let startIdx = js_indexOf analysis ''```json'' 0 + 7;
                endIdx = js_indexOf analysis ''```'' (nat startIdx)
            in js_trim (js_substring analysis startIdx endIdx))
      else analysis)"


section \<open>The per-item pipeline\<close>

text \<open>
  The instructions sent to the oracle: the built-in extraction template of
  \<^verbatim>\<open>processPdfWithClaude\<close> (lines 307 to 385, which ends with the file's name), or a
  custom prompt.
\<close>

datatype prompt =
    ExtractionPrompt string
  | CustomPrompt string

record pdf =
  filename :: string
  content :: string

text \<open>What \<^verbatim>\<open>processPdfWithClaude\<close> returns: \<^verbatim>\<open>{success: true, analysis, ...}\<close> or
  \<^verbatim>\<open>{success: false, error, ...}\<close>.\<close>

datatype claudeResult =
    ClaudeSuccess string
  | ClaudeFailure string

text \<open>What \<^verbatim>\<open>processSinglePdf\<close> resolves to.\<close>

record outcome =
  success :: bool
  outcome_filename :: string
  outcome_error :: "string option"

text \<open>
  The observable steps of a run. \<open>Started\<close> is the first line \<^verbatim>\<open>processSinglePdf\<close> logs;
  \<open>OracleCall\<close> is one \<^verbatim>\<open>anthropic.messages.create\<close>; \<open>SaveResult\<close> and \<open>Upload\<close> are the
  writes of \<^verbatim>\<open>saveResult\<close> and \<^verbatim>\<open>uploadToNetSuite\<close> with the extracted data they are given;
  \<open>Backoff\<close> and \<open>BatchDelay\<close> are the two \<^verbatim>\<open>setTimeout\<close> waits, in milliseconds;
  \<open>Finished\<close> is the progress line, with the item's result and the three counters.
\<close>

datatype event =
    Started nat
  | OracleCall nat prompt
  | SaveResult nat jsval
  | Upload nat jsval
  | Backoff nat nat
  | Finished nat bool nat nat nat
  | BatchStarted nat nat nat
  | BatchCompleted nat
  | BatchDelay nat

text \<open>The counters of lines 623 to 625 and the steps so far.\<close>

record state =
  processedCount :: nat
  successCount :: nat
  failCount :: nat
  trace :: "event list"

definition emit :: "event \<Rightarrow> state \<Rightarrow> state" where
  "emit ev st = st\<lparr>trace := trace st @ [ev]\<rparr>"

text \<open>
  Everything outside the program. The file system, the oracle and the order in which the
  items of a group finish answer per item (its index) and per attempt (\<open>retryCount\<close>), so
  that each call has one answer. \<open>JSON_parse\<close> is the built-in \<^verbatim>\<open>JSON.parse\<close>, \<open>None\<close>
  when it throws. \<open>createExtractionPrompt\<close> is what the identifier of that name, read on
  line 665, is bound to: no file of the repository defines it, which is \<open>None\<close>.
\<close>

record env =
  saveProcessedPdfs :: bool
  saveResults :: bool
  netsuiteEnabled :: bool
  fsWritePdf :: "nat \<Rightarrow> nat \<Rightarrow> exn option"
  fsWriteResult :: "nat \<Rightarrow> nat \<Rightarrow> exn option"
  messagesCreate :: "nat \<Rightarrow> nat \<Rightarrow> prompt \<Rightarrow> exn + string"
  JSON_parse :: "string \<Rightarrow> jsval option"
  createExtractionPrompt :: "(string \<Rightarrow> string) option"
  finishTime :: "nat \<Rightarrow> nat"

definition BATCH_SIZE :: nat where "BATCH_SIZE = 3"
definition BATCH_DELAY_MS :: nat where "BATCH_DELAY_MS = 5000"
definition RETRY_ATTEMPTS :: nat where "RETRY_ATTEMPTS = 3"

text \<open>\<^verbatim>\<open>savePdf\<close> (lines 446 to 458) and \<^verbatim>\<open>saveResult\<close> (lines 463 to 474): nothing happens
  when the setting is off; otherwise the file system may throw.\<close>

definition savePdf :: "env \<Rightarrow> nat \<Rightarrow> nat \<Rightarrow> exn option" where
  "savePdf e index retryCount = (if \<not> saveProcessedPdfs e then None else fsWritePdf e index retryCount)"

definition saveResult :: "env \<Rightarrow> nat \<Rightarrow> nat \<Rightarrow> jsval \<Rightarrow> state \<Rightarrow> exn option \<times> state" where
  "saveResult e index retryCount extractedData st =
     (if \<not> saveResults e then (None, st)
      else case fsWriteResult e index retryCount of
        Some err \<Rightarrow> (Some err, st)
      | None \<Rightarrow> (None, emit (SaveResult index extractedData) st))"

text \<open>
  \<^verbatim>\<open>uploadToNetSuite\<close> (lines 479 to 569) catches its own errors and its result is not read
  by the caller; the request is sent when the integration is enabled.
\<close>

definition uploadToNetSuite :: "env \<Rightarrow> nat \<Rightarrow> jsval \<Rightarrow> state \<Rightarrow> state" where
  "uploadToNetSuite e index extractedData st =
     (if \<not> netsuiteEnabled e then st else emit (Upload index extractedData) st)"

text \<open>
  \<^verbatim>\<open>processPdfWithClaude\<close> (lines 300 to 441): \<^verbatim>\<open>customPrompt || template\<close>, the call, and
  the \<^verbatim>\<open>catch\<close> of lines 432 to 440, which turns every error of the call into a result.
\<close>

definition processPdfWithClaude ::
  "env \<Rightarrow> nat \<Rightarrow> nat \<Rightarrow> pdf \<Rightarrow> string option \<Rightarrow> state \<Rightarrow> claudeResult \<times> state" where
  "processPdfWithClaude e index retryCount p customPrompt st =
     (let instructions =
            (case customPrompt of
               None \<Rightarrow> ExtractionPrompt (filename p)
             | Some c \<Rightarrow> if c = [] then ExtractionPrompt (filename p) else CustomPrompt c);
          st1 = emit (OracleCall index instructions) st
      in case messagesCreate e index retryCount instructions of
           Inl err \<Rightarrow> (ClaudeFailure (message err), st1)
         | Inr analysis \<Rightarrow> (ClaudeSuccess analysis, st1))"

text \<open>The interpolation of line 656, \<^verbatim>\<open>${extractedData.invoiceNumber || 'N/A'}\<close>.\<close>

definition parsedInvoice :: "jsval \<Rightarrow> exn + string" where
  "parsedInvoice extractedData =
     (case getProp extractedData ''invoiceNumber'' of
        Inl err \<Rightarrow> Inl err
      | Inr v \<Rightarrow> toStr (if truthy v then v else Str ''N/A''))"

text \<open>The fixed text of the retry prompt around the validator's reason (line 665).\<close>

definition retryPreamble :: "string \<Rightarrow> string" where
  "retryPreamble why =
     ''CRITICAL: Previous extraction had invalid bill numbers.\<newline>\<newline>'' @ why
     @ ''\<newline>\<newline>Please re-analyze this PDF and extract EXACTLY 8-digit bill numbers for each line item.\<newline>''
     @ ''Remember: Bill numbers are embedded in the Description column (look for N or W followed by 8 digits).\<newline>''
     @ ''If the number spans multiple lines, concatenate to get exactly 8 digits total.\<newline>\<newline>''
     @ ''All line items MUST have valid 8-digit original bill numbers.\<newline>\<newline>''"

text \<open>
  The inner \<^verbatim>\<open>try\<close> of lines 647 to 699, which yields the value of \<^verbatim>\<open>extractedData\<close> that
  the rest of the function uses. The variable is \<^verbatim>\<open>null\<close> until \<^verbatim>\<open>JSON.parse\<close> has
  returned, and every exception raised in the block ends the block with the variable as it
  is then: a \<^verbatim>\<open>SyntaxError\<close> of \<^verbatim>\<open>JSON.parse\<close>, a \<^verbatim>\<open>TypeError\<close> of the log line or of the
  validator, and the \<^verbatim>\<open>ReferenceError\<close> of reading \<^verbatim>\<open>createExtractionPrompt\<close> unbound.
\<close>

definition parseAndValidate ::
  "env \<Rightarrow> nat \<Rightarrow> nat \<Rightarrow> pdf \<Rightarrow> string \<Rightarrow> state \<Rightarrow> jsval \<times> state" where
  "parseAndValidate e index retryCount p analysis st =
     (case JSON_parse e (stripJsonFence analysis) of
        None \<Rightarrow> (Null, st)
      | Some extractedData \<Rightarrow>
          (case parsedInvoice extractedData of
             Inl err \<Rightarrow> (extractedData, st)
           | Inr invoice \<Rightarrow>
               (case validateBillNumbers extractedData of
                  Inl err \<Rightarrow> (extractedData, st)
                | Inr validationResult \<Rightarrow>
                    if \<not> valid validationResult \<and> retryCount = 0
                    then (case createExtractionPrompt e of
                            None \<Rightarrow> (extractedData, st)
                          | Some instructionsFor \<Rightarrow>
                              (let retryPrompt = retryPreamble (reason validationResult) @ instructionsFor (filename p);
                                   (retryResult, st1) = processPdfWithClaude e index retryCount p (Some retryPrompt) st
                               in case retryResult of
                                    ClaudeFailure err \<Rightarrow> (extractedData, st1)
                                  | ClaudeSuccess retryAnalysis \<Rightarrow>
                                      (case JSON_parse e (stripJsonFence retryAnalysis) of
                                         None \<Rightarrow> (extractedData, st1)
                                       | Some retryExtractedData \<Rightarrow>
                                           (case validateBillNumbers retryExtractedData of
                                              Inl err \<Rightarrow> (extractedData, st1)
                                            | Inr retryValidation \<Rightarrow>
                                                if valid retryValidation
                                                then (retryExtractedData, st1)
                                                else (extractedData, st1)))))
                    else (extractedData, st))))"

text \<open>The two ways an item ends: lines 721 to 725, and lines 727 to 731 and 744 to 748.\<close>

definition finishSuccess :: "nat \<Rightarrow> pdf \<Rightarrow> state \<Rightarrow> (exn + outcome) \<times> state" where
  "finishSuccess index p st =
     (let st1 = st\<lparr>successCount := successCount st + 1, processedCount := processedCount st + 1\<rparr>
      in (Inr \<lparr>success = True, outcome_filename = filename p, outcome_error = None\<rparr>,
          emit (Finished index True (processedCount st1) (successCount st1) (failCount st1)) st1))"

definition finishFailure :: "nat \<Rightarrow> pdf \<Rightarrow> string \<Rightarrow> state \<Rightarrow> (exn + outcome) \<times> state" where
  "finishFailure index p err st =
     (let st1 = st\<lparr>failCount := failCount st + 1, processedCount := processedCount st + 1\<rparr>
      in (Inr \<lparr>success = False, outcome_filename = filename p, outcome_error = Some err\<rparr>,
          emit (Finished index False (processedCount st1) (successCount st1) (failCount st1)) st1))"

text \<open>The body of the outer \<^verbatim>\<open>try\<close> (lines 630 to 732): \<open>Inl\<close> is an exception that reaches
  the \<^verbatim>\<open>catch\<close> of line 733.\<close>

definition tryBody :: "env \<Rightarrow> pdf \<Rightarrow> nat \<Rightarrow> nat \<Rightarrow> state \<Rightarrow> (exn + outcome) \<times> state" where
  "tryBody e p index retryCount st =
     (let st0 = emit (Started index) st
      in case savePdf e index retryCount of
           Some err \<Rightarrow> (Inl err, st0)
         | None \<Rightarrow>
             (let (result, st1) = processPdfWithClaude e index retryCount p None st0
              in case result of
                   ClaudeSuccess analysis \<Rightarrow>
                     (let (extractedData, st2) = parseAndValidate e index retryCount p analysis st1
                      in case saveResult e index retryCount extractedData st2 of
                           (Some err, st3) \<Rightarrow> (Inl err, st3)
                         | (None, st3) \<Rightarrow>
                             finishSuccess index p
                               (if truthy extractedData then uploadToNetSuite e index extractedData st3 else st3))
                 | ClaudeFailure err \<Rightarrow> finishFailure index p err st1))"

text \<open>Line 735: \<^verbatim>\<open>error.message && error.message.includes('rate_limit_error')\<close>.\<close>

definition isRateLimitError :: "exn \<Rightarrow> bool" where
  "isRateLimitError err = (message err \<noteq> [] \<and> js_includes (message err) ''rate_limit_error'')"

text \<open>
  \<^verbatim>\<open>processSinglePdf\<close> (lines 628 to 750): the body, and the \<^verbatim>\<open>catch\<close> that waits
  \<open>2 ^ retryCount * 10\<close> seconds and calls the function again, or ends the item as failed.
\<close>

function processSinglePdf :: "env \<Rightarrow> pdf \<Rightarrow> nat \<Rightarrow> nat \<Rightarrow> state \<Rightarrow> (exn + outcome) \<times> state" where
  "processSinglePdf e p index retryCount st =
     (case tryBody e p index retryCount st of
        (Inr result, st1) \<Rightarrow> (Inr result, st1)
      | (Inl err, st1) \<Rightarrow>
          if isRateLimitError err \<and> retryCount < RETRY_ATTEMPTS
          then processSinglePdf e p index (retryCount + 1)
                 (emit (Backoff index (2 ^ retryCount * 10 * 1000)) st1)
          else finishFailure index p (message err) st1)"
  by pat_completeness auto
termination
  by (relation "measure (\<lambda>(e, p, index, retryCount, st). RETRY_ATTEMPTS - retryCount)") auto

declare processSinglePdf.simps [simp del]

text \<open>
  One group (lines 761 to 763): \<^verbatim>\<open>Promise.allSettled\<close> over the items of the group, each
  started with \<open>retryCount = 0\<close>. The pipelines of a group interleave at their
  \<^verbatim>\<open>await\<close>s; what one of them does depends on nothing the others write (the counters are
  only read for the progress line at its end), so the model runs them one after the other in
  the order in which they finish, which the environment's \<open>finishTime\<close> gives. The settled
  results are not read.
\<close>

definition runBatch :: "env \<Rightarrow> pdf list \<Rightarrow> nat list \<Rightarrow> state \<Rightarrow> state" where
  "runBatch e pdfAttachments batch st =
     foldl (\<lambda>s k. snd (processSinglePdf e (pdfAttachments ! k) k 0 s)) st (sort_key (finishTime e) batch)"

text \<open>The body of the loop of lines 753 to 772 for the group that starts at index \<open>i\<close>.\<close>

definition batchBody :: "env \<Rightarrow> pdf list \<Rightarrow> nat \<Rightarrow> state \<Rightarrow> state" where
  "batchBody e pdfAttachments i st =
     (let batch = [i ..< min (i + BATCH_SIZE) (length pdfAttachments)];
          batchNum = i div BATCH_SIZE + 1;
          totalBatches = (length pdfAttachments + BATCH_SIZE - 1) div BATCH_SIZE;
          st1 = emit (BatchStarted batchNum totalBatches (length batch)) st;
          st2 = runBatch e pdfAttachments batch st1;
          st3 = emit (BatchCompleted batchNum) st2
      in if i + BATCH_SIZE < length pdfAttachments then emit (BatchDelay BATCH_DELAY_MS) st3 else st3)"

text \<open>The loop, from index \<open>i\<close> on.\<close>

function processBatches :: "env \<Rightarrow> pdf list \<Rightarrow> nat \<Rightarrow> state \<Rightarrow> state" where
  "processBatches e pdfAttachments i st =
     (if i < length pdfAttachments
      then processBatches e pdfAttachments (i + BATCH_SIZE) (batchBody e pdfAttachments i st)
      else st)"
  by pat_completeness auto
termination
  by (relation "measure (\<lambda>(e, pdfAttachments, i, st). length pdfAttachments - i)") (auto simp: BATCH_SIZE_def)

declare processBatches.simps [simp del]

definition initialState :: state where
  "initialState = \<lparr>processedCount = 0, successCount = 0, failCount = 0, trace = []\<rparr>"


section \<open>Views of a run\<close>

text \<open>
  What a trace shows of the scheduling: the start of a group with its size, the end of an
  item, the end of a group, and the pause between groups.
\<close>

datatype sched =
    GroupStart nat
  | ItemDone nat
  | GroupEnd
  | Pause nat

fun view :: "event \<Rightarrow> sched list" where
  "view (BatchStarted batchNum totalBatches n) = [GroupStart n]"
| "view (Finished k ok processed succeeded failed) = [ItemDone k]"
| "view (BatchCompleted batchNum) = [GroupEnd]"
| "view (BatchDelay ms) = [Pause ms]"
| "view ev = []"

definition schedView :: "event list \<Rightarrow> sched list" where
  "schedView tr = concat (map view tr)"

text \<open>
  The items started and finished, the values of the processed counter at the progress
  lines, the prompts sent to the oracle, the extracted data saved or uploaded, and the
  waits of the rate-limit retry, each in the order of the trace.
\<close>

fun startedItem :: "event \<Rightarrow> nat list" where
  "startedItem (Started k) = [k]"
| "startedItem ev = []"

definition startedItems :: "event list \<Rightarrow> nat list" where
  "startedItems tr = concat (map startedItem tr)"

fun finishedItem :: "event \<Rightarrow> nat list" where
  "finishedItem (Finished k ok processed succeeded failed) = [k]"
| "finishedItem ev = []"

definition finishedItems :: "event list \<Rightarrow> nat list" where
  "finishedItems tr = concat (map finishedItem tr)"

fun processedValue :: "event \<Rightarrow> nat list" where
  "processedValue (Finished k ok processed succeeded failed) = [processed]"
| "processedValue ev = []"

definition processedLog :: "event list \<Rightarrow> nat list" where
  "processedLog tr = concat (map processedValue tr)"

fun oracleCall :: "event \<Rightarrow> prompt list" where
  "oracleCall (OracleCall k instructions) = [instructions]"
| "oracleCall ev = []"

definition oracleCalls :: "event list \<Rightarrow> prompt list" where
  "oracleCalls tr = concat (map oracleCall tr)"

fun persistedData :: "event \<Rightarrow> jsval list" where
  "persistedData (SaveResult k d) = [d]"
| "persistedData (Upload k d) = [d]"
| "persistedData ev = []"

definition persisted :: "event list \<Rightarrow> jsval list" where
  "persisted tr = concat (map persistedData tr)"

fun backoff :: "event \<Rightarrow> nat list" where
  "backoff (Backoff k ms) = [ms]"
| "backoff ev = []"

definition backoffs :: "event list \<Rightarrow> nat list" where
  "backoffs tr = concat (map backoff tr)"

subsection \<open>The schedule as the specification words it\<close>

text \<open>
  For \<open>N\<close> items: the groups are the consecutive runs of at most 3 indices, in order. The
  block of a group is its start with its size, the end of each of its items in the order
  in which they finish, its end, and a pause of 5000 ms unless the group is the last. The
  schedule is the blocks one after the other. \<open>startsAfterEarlierGroups\<close>: wherever a trace
  starts an item, every item of an earlier group has finished before.
\<close>

definition spec_groups :: "nat \<Rightarrow> nat list list" where
  "spec_groups N = map (\<lambda>g. [g * 3 ..< min (g * 3 + 3) N]) [0 ..< (N + 2) div 3]"

definition spec_groupBlock :: "(nat \<Rightarrow> nat) \<Rightarrow> nat \<Rightarrow> nat \<Rightarrow> sched list" where
  "spec_groupBlock finishesAt N g =
     [GroupStart (length (spec_groups N ! g))]
     @ map ItemDone (sort_key finishesAt (spec_groups N ! g))
     @ [GroupEnd]
     @ (if g + 1 < length (spec_groups N) then [Pause 5000] else [])"

definition spec_schedule :: "(nat \<Rightarrow> nat) \<Rightarrow> nat \<Rightarrow> sched list" where
  "spec_schedule finishesAt N = concat (map (spec_groupBlock finishesAt N) [0 ..< length (spec_groups N)])"

definition startsAfterEarlierGroups :: "event list \<Rightarrow> bool" where
  "startsAfterEarlierGroups tr =
     (\<forall>pre j post. tr = pre @ Started j # post \<longrightarrow>
        (\<forall>i. i div 3 < j div 3 \<longrightarrow> i \<in> set (finishedItems pre)))"


subsection \<open>Increments of a trace\<close>

text \<open>
  Three notions the proofs about runs use. The events \<open>evs\<close> are \<open>quiet\<close> for the item \<open>k\<close>
  when none of them shows in the scheduler's view and the only item they start is \<open>k\<close>.
  Two states have the same counters (\<open>sameCounters\<close>). A run \<open>endsItem\<close> when it appended
  quiet events and then the one \<open>Finished\<close> event of \<open>k\<close>, with the processed counter one
  higher.
\<close>

definition quiet :: "event list \<Rightarrow> nat \<Rightarrow> bool" where
  "quiet evs k = (schedView evs = [] \<and> set (startedItems evs) \<subseteq> {k})"

definition sameCounters :: "state \<Rightarrow> state \<Rightarrow> bool" where
  "sameCounters st st' = (processedCount st' = processedCount st \<and> successCount st' = successCount st
      \<and> failCount st' = failCount st)"

definition endsItem :: "state \<Rightarrow> state \<Rightarrow> nat \<Rightarrow> outcome \<Rightarrow> event list \<Rightarrow> bool" where
  "endsItem st st' k out evs =
     (trace st' = trace st @ evs @ [Finished k (success out) (processedCount st + 1) (successCount st') (failCount st')]
      \<and> quiet evs k \<and> processedCount st' = processedCount st + 1)"

section \<open>Routing rules and their refresh\<close>

text \<open>An element of \<^verbatim>\<open>EMAIL_PROCESSORS\<close> (lines 32 to 47 and 186 to 201). The fields copied
  from the response are whatever JSON values it held.\<close>

record processor =
  proc_name :: string
  proc_enabled :: bool
  criteria_from :: jsval
  criteria_subjectContains :: jsval
  netsuite_pdfFolderId :: jsval
  netsuite_jsonFolderId :: jsval
  claudePrompt :: jsval
  configId :: jsval
  vendor :: jsval
  transactionType :: jsval

text \<open>The two variables the refresh assigns (lines 204 and 205).\<close>

record configState =
  EMAIL_PROCESSORS :: "processor list"
  CONFIG_processors :: "processor list"

text \<open>
  What the refresh reads: the two settings of line 143, and the answer of \<^verbatim>\<open>axios.get\<close>,
  which throws (\<open>Inl\<close>) or returns the parsed body \<^verbatim>\<open>response.data\<close>.
\<close>

record netsuiteEnv =
  netsuite_enabled :: bool
  restletUrl :: string
  axiosGet :: "exn + jsval"

text \<open>\<^verbatim>\<open>s.replace(/[^a-z0-9]+/g, '_')\<close>: every maximal run of other characters becomes one
  underscore.\<close>

definition isLowerAlnum :: "char \<Rightarrow> bool" where
  "isLowerAlnum c =
     (let n = (of_char c :: nat) in (97 \<le> n \<and> n \<le> 122) \<or> (48 \<le> n \<and> n \<le> 57))"

fun replaceRunsFrom :: "bool \<Rightarrow> string \<Rightarrow> string" where
  "replaceRunsFrom inRun [] = []"
| "replaceRunsFrom inRun (c # s) =
     (if isLowerAlnum c then c # replaceRunsFrom False s
      else if inRun then replaceRunsFrom True s
      else CHR ''_'' # replaceRunsFrom True s)"

definition replaceRuns :: "string \<Rightarrow> string" where
  "replaceRuns s = replaceRunsFrom False s"

text \<open>The arrow function of lines 186 to 201 on one element of \<^verbatim>\<open>configs\<close>.\<close>

definition toProcessor :: "jsval \<Rightarrow> exn + processor" where
  "toProcessor config =
     (case getProp config ''displayName'' of
        Inl err \<Rightarrow> Inl err
      | Inr (Str displayName) \<Rightarrow>
          Inr \<lparr> proc_name = replaceRuns (js_toLowerCase displayName),
                proc_enabled = True,
                criteria_from = ownProp config ''emailFrom'',
                criteria_subjectContains = ownProp config ''emailSubjectContains'',
                netsuite_pdfFolderId = ownProp config ''pdfFolderId'',
                netsuite_jsonFolderId = ownProp config ''jsonFolderId'',
                claudePrompt = (if truthy (ownProp config ''claudePrompt'')
                                then ownProp config ''claudePrompt'' else Str ''marcone''),
                configId = ownProp config ''id'',
                vendor = ownProp config ''vendor'',
                transactionType = ownProp config ''transactionType'' \<rparr>
      | Inr other \<Rightarrow> Inl (TypeError ''config.displayName.toLowerCase is not a function''))"

fun toProcessors :: "jsval list \<Rightarrow> exn + processor list" where
  "toProcessors [] = Inr []"
| "toProcessors (config # configs) =
     (case toProcessor config of
        Inl err \<Rightarrow> Inl err
      | Inr p \<Rightarrow> (case toProcessors configs of Inl err \<Rightarrow> Inl err | Inr ps \<Rightarrow> Inr (p # ps)))"

text \<open>The log lines of lines 208 to 213 for one processor: the two criteria are converted
  to strings, and a prompt other than \<^verbatim>\<open>'marcone'\<close> is cut with \<^verbatim>\<open>substring\<close>, which only a
  string has.\<close>

definition logProcessor :: "processor \<Rightarrow> exn + unit" where
  "logProcessor p =
     (case toStr (criteria_from p) of
        Inl err \<Rightarrow> Inl err
      | Inr f \<Rightarrow>
          (case toStr (criteria_subjectContains p) of
             Inl err \<Rightarrow> Inl err
           | Inr s \<Rightarrow>
               if truthy (claudePrompt p) \<and> claudePrompt p \<noteq> Str ''marcone''
               then (case claudePrompt p of
                       Str c \<Rightarrow> Inr ()
                     | other \<Rightarrow> Inl (TypeError ''p.claudePrompt.substring is not a function''))
               else Inr ()))"

fun logProcessors :: "processor list \<Rightarrow> exn + unit" where
  "logProcessors [] = Inr ()"
| "logProcessors (p # ps) = (case logProcessor p of Inl err \<Rightarrow> Inl err | Inr u \<Rightarrow> logProcessors ps)"

text \<open>
  The \<^verbatim>\<open>try\<close> block of lines 148 to 216 from the answer of \<^verbatim>\<open>axios.get\<close> on. The test of
  line 184 reads \<^verbatim>\<open>success\<close>, \<^verbatim>\<open>configs\<close> and \<^verbatim>\<open>configs.length > 0\<close>. For a \<^verbatim>\<open>configs\<close> that is
  a non-empty string the test holds and \<^verbatim>\<open>configs.map\<close> is not a function; for one that is an
  object the test compares its \<^verbatim>\<open>length\<close> property with zero, and the block then either takes
  the \<^verbatim>\<open>else\<close> of line 214 or throws at \<^verbatim>\<open>configs.map\<close>: the model takes the \<^verbatim>\<open>else\<close>, the two
  ending in the same state.
\<close>

definition tryFetch :: "netsuiteEnv \<Rightarrow> configState \<Rightarrow> (exn + unit) \<times> configState" where
  "tryFetch ne st =
     (case axiosGet ne of
        Inl err \<Rightarrow> (Inl err, st)
      | Inr responseData \<Rightarrow>
          (case getProp responseData ''success'' of
             Inl err \<Rightarrow> (Inl err, st)
           | Inr ok \<Rightarrow>
               if \<not> truthy ok then (Inr (), st)
               else (case ownProp responseData ''configs'' of
                       Arr configs \<Rightarrow>
                         if configs = [] then (Inr (), st)
                         else (case toProcessors configs of
                                 Inl err \<Rightarrow> (Inl err, st)
                               | Inr newProcessors \<Rightarrow>
                                   (logProcessors newProcessors,
                                    st\<lparr>EMAIL_PROCESSORS := newProcessors, CONFIG_processors := newProcessors\<rparr>))
                     | Str s \<Rightarrow>
                         if s = [] then (Inr (), st)
                         else (Inl (TypeError ''response.data.configs.map is not a function''), st)
                     | other \<Rightarrow> (Inr (), st))))"

text \<open>\<^verbatim>\<open>fetchNetSuiteConfigs\<close> (lines 142 to 225): the guard of line 143, the block, and the
  \<^verbatim>\<open>catch\<close> of lines 217 to 224, which logs.\<close>

definition fetchNetSuiteConfigs :: "netsuiteEnv \<Rightarrow> configState \<Rightarrow> (exn + unit) \<times> configState" where
  "fetchNetSuiteConfigs ne st =
     (if \<not> netsuite_enabled ne \<or> restletUrl ne = [] then (Inr (), st)
      else case tryFetch ne st of
             (Inl err, st1) \<Rightarrow> (Inr (), st1)
           | (Inr u, st1) \<Rightarrow> (Inr (), st1))"

text \<open>The timer callback of lines 860 to 864: the call, with a \<^verbatim>\<open>catch\<close> that logs.\<close>

definition refreshTick :: "netsuiteEnv \<Rightarrow> configState \<Rightarrow> (exn + unit) \<times> configState" where
  "refreshTick ne st =
     (case fetchNetSuiteConfigs ne st of
        (Inl err, st1) \<Rightarrow> (Inr (), st1)
      | (Inr u, st1) \<Rightarrow> (Inr (), st1))"

text \<open>The sender and the subject of a parsed message, as \<^verbatim>\<open>matchEmailProcessor\<close> reads them
  (lines 233 and 234).\<close>

record email =
  from_text :: "string option"
  from_address :: "string option"
  subject :: "string option"

definition fromAddressOf :: "email \<Rightarrow> string" where
  "fromAddressOf m =
     (case from_text m of
        Some t \<Rightarrow> if t \<noteq> [] then js_toLowerCase t
                  else (case from_address m of Some a \<Rightarrow> js_toLowerCase a | None \<Rightarrow> [])
      | None \<Rightarrow> (case from_address m of Some a \<Rightarrow> js_toLowerCase a | None \<Rightarrow> []))"

text \<open>\<^verbatim>\<open>matchEmailProcessor\<close> (lines 232 to 250): the first enabled processor both of whose
  criteria the message meets. \<^verbatim>\<open>criteria.from.toLowerCase()\<close> needs a string;
  \<^verbatim>\<open>subject.includes\<close> converts its argument.\<close>

fun firstMatch :: "string \<Rightarrow> string \<Rightarrow> processor list \<Rightarrow> exn + processor option" where
  "firstMatch fromAddress subj [] = Inr None"
| "firstMatch fromAddress subj (p # ps) =
     (if \<not> proc_enabled p then firstMatch fromAddress subj ps
      else case criteria_from p of
        Str f \<Rightarrow>
          (case toStr (criteria_subjectContains p) of
             Inl err \<Rightarrow> Inl err
           | Inr s \<Rightarrow>
               if js_includes fromAddress (js_toLowerCase f) \<and> js_includes subj s
               then Inr (Some p)
               else firstMatch fromAddress subj ps)
      | other \<Rightarrow> Inl (TypeError ''processor.criteria.from.toLowerCase is not a function''))"

definition matchEmailProcessor :: "configState \<Rightarrow> email \<Rightarrow> exn + processor option" where
  "matchEmailProcessor st m =
     firstMatch (fromAddressOf m) (case subject m of Some s \<Rightarrow> s | None \<Rightarrow> []) (CONFIG_processors st)"


section \<open>Concrete inputs\<close>

text \<open>
  The inputs at which the theorems below are evaluated. \<open>failsValidation\<close> says that the
  validator returns for the data, with \<open>valid = false\<close>.
\<close>

definition failsValidation :: "jsval \<Rightarrow> bool" where
  "failsValidation d = (case validateBillNumbers d of Inl err \<Rightarrow> False | Inr r \<Rightarrow> \<not> valid r)"

text \<open>
  One attachment, and two answers of the oracle with the values \<^verbatim>\<open>JSON.parse\<close> gives for
  them: in the first the one line item has a bill number of 6 digits, in the second (a
  fenced block) one of 7 digits.
\<close>

definition exPdf :: pdf where
  "exPdf = \<lparr>filename = ''credit.pdf'', content = []\<rparr>"

definition exText1 :: string where
  "exText1 = ''{\"invoiceNumber\":\"67718510\",\"lineItems\":[{\"nardaNumber\":\"NF\",\"originalBillNumber\":\"668110\"}]}''"

definition exData1 :: jsval where
  "exData1 = Obj [(''invoiceNumber'', Str ''67718510''),
                  (''lineItems'', Arr [Obj [(''nardaNumber'', Str ''NF''), (''originalBillNumber'', Str ''668110'')]])]"

definition exText2 :: string where
  "exText2 = ''```json\<newline>{\"invoiceNumber\":\"67718510\",\"lineItems\":[{\"nardaNumber\":\"NF\",\"originalBillNumber\":\"6681102\"}]}\<newline>```''"

definition exJson2 :: string where
  "exJson2 = ''{\"invoiceNumber\":\"67718510\",\"lineItems\":[{\"nardaNumber\":\"NF\",\"originalBillNumber\":\"6681102\"}]}''"

definition exData2 :: jsval where
  "exData2 = Obj [(''invoiceNumber'', Str ''67718510''),
                  (''lineItems'', Arr [Obj [(''nardaNumber'', Str ''NF''), (''originalBillNumber'', Str ''6681102'')]])]"

text \<open>
  An environment in which the file system never fails, results are saved and uploaded, the
  oracle answers the built-in instructions with the first text and any custom prompt with
  the second, and \<open>createExtractionPrompt\<close> is unbound, as in the repository. In
  \<open>exEnvRateLimit\<close> every call of the oracle throws a rate-limit error; in \<open>exEnvProse\<close> the oracle answers with prose that
  \<^verbatim>\<open>JSON.parse\<close> rejects; in \<open>exEnvDisk\<close> saving the first attachment fails; \<open>exEnvBatch\<close> is
  for seven attachments, the second of which the oracle fails on, with the items of a
  group finishing in the reverse of their order.
\<close>

definition exEnv :: env where
  "exEnv =
     \<lparr> saveProcessedPdfs = False, saveResults = True, netsuiteEnabled = True,
       fsWritePdf = (\<lambda>i r. None), fsWriteResult = (\<lambda>i r. None),
       messagesCreate = (\<lambda>i r instructions.
          case instructions of ExtractionPrompt f \<Rightarrow> Inr exText1 | CustomPrompt c \<Rightarrow> Inr exText2),
       JSON_parse = map_of [(exText1, exData1), (exJson2, exData2)],
       createExtractionPrompt = None,
       finishTime = (\<lambda>i. i) \<rparr>"

definition exRateLimitMessage :: string where
  "exRateLimitMessage = ''429 {\"type\":\"error\",\"error\":{\"type\":\"rate_limit_error\",\"message\":\"Too many requests\"}}''"

definition exEnvRateLimit :: env where
  "exEnvRateLimit = exEnv\<lparr>messagesCreate := (\<lambda>i r instructions. Inl (Error exRateLimitMessage))\<rparr>"

definition exEnvProse :: env where
  "exEnvProse = exEnv\<lparr>messagesCreate := (\<lambda>i r instructions. Inr ''I could not read this document.''),
                        JSON_parse := (\<lambda>s. None)\<rparr>"

definition exEnvDisk :: env where
  "exEnvDisk =
     \<lparr> saveProcessedPdfs = True, saveResults = False, netsuiteEnabled = False,
       fsWritePdf = (\<lambda>i r. if i = 0 then Some (Error ''ENOSPC: no space left on device, write'') else None),
       fsWriteResult = (\<lambda>i r. None),
       messagesCreate = (\<lambda>i r instructions. Inr ''no JSON here''),
       JSON_parse = (\<lambda>s. None),
       createExtractionPrompt = None,
       finishTime = (\<lambda>i. i) \<rparr>"

definition exPdfs :: "pdf list" where
  "exPdfs = map (\<lambda>n. \<lparr>filename = ''credit-'' @ showNat n @ ''.pdf'', content = []\<rparr>) [0 ..< 7]"

definition exEnvBatch :: env where
  "exEnvBatch =
     \<lparr> saveProcessedPdfs = False, saveResults = False, netsuiteEnabled = False,
       fsWritePdf = (\<lambda>i r. None), fsWriteResult = (\<lambda>i r. None),
       messagesCreate = (\<lambda>i r instructions. if i = 1 then Inl (Error ''529 overloaded_error'') else Inr ''no JSON here''),
       JSON_parse = (\<lambda>s. None),
       createExtractionPrompt = None,
       finishTime = (\<lambda>i. 10 - i) \<rparr>"

text \<open>
  A rule list with the built-in Marcone rule, a response of the configuration source with
  one other rule, the processor lines 186 to 201 make of it, and a message that the Marcone
  rule matches.
\<close>

definition exOldProcessor :: processor where
  "exOldProcessor =
     \<lparr> proc_name = ''marcone_credits'', proc_enabled = True,
       criteria_from = Str ''no-replies@marcone.com'',
       criteria_subjectContains = Str ''Credits processed by Marcone for 2684000'',
       netsuite_pdfFolderId = Undefined, netsuite_jsonFolderId = Undefined,
       claudePrompt = Str ''marcone'', configId = Undefined, vendor = Undefined,
       transactionType = Undefined \<rparr>"

definition exConfigState :: configState where
  "exConfigState = \<lparr>EMAIL_PROCESSORS = [exOldProcessor], CONFIG_processors = [exOldProcessor]\<rparr>"

definition exConfig :: jsval where
  "exConfig = Obj [(''id'', Num 2), (''displayName'', Str ''Acme Parts - Credits''),
                   (''emailFrom'', Str ''billing@acme.example''), (''emailSubjectContains'', Str ''Credit memo''),
                   (''pdfFolderId'', Num 101), (''jsonFolderId'', Num 102)]"

definition exNewProcessor :: processor where
  "exNewProcessor =
     \<lparr> proc_name = ''acme_parts_credits'', proc_enabled = True,
       criteria_from = Str ''billing@acme.example'',
       criteria_subjectContains = Str ''Credit memo'',
       netsuite_pdfFolderId = Num 101, netsuite_jsonFolderId = Num 102,
       claudePrompt = Str ''marcone'', configId = Num 2, vendor = Undefined,
       transactionType = Undefined \<rparr>"

definition exNetsuite :: netsuiteEnv where
  "exNetsuite =
     \<lparr> netsuite_enabled = True, restletUrl = ''https://example.invalid/restlet'',
       axiosGet = Inr (Obj [(''success'', Bool True), (''configs'', Arr [exConfig])]) \<rparr>"

definition exMarconeEmail :: email where
  "exMarconeEmail =
     \<lparr> from_text = Some ''Marcone <no-replies@marcone.com>'', from_address = Some ''no-replies@marcone.com'',
       subject = Some ''Credits processed by Marcone for 2684000'' \<rparr>"




section \<open>Properties of the validator\<close>

lemma toStrs_length: "toStrs xs = Inr ss \<Longrightarrow> length ss = length xs"
  by (induction xs arbitrary: ss) (auto split: sum.splits if_splits)

lemma join_comma_mem: "2 \<le> length ss \<Longrightarrow> CHR '','' \<in> set (join '','' ss)"
  by (induction "'',''" ss rule: join.induct) auto

lemma comma_not_digit: "\<not> isDigit CHR '',''"
  by (simp add: isDigit_def)

lemma toStr_Arr_no_match:
  assumes "toStr (Arr xs) = Inr s" and "length xs = 8"
  shows "\<not> matches8Digits s"
proof -
  from assms(1) obtain ss where ss: "toStrs xs = Inr ss" and s: "s = join '','' ss"
    by (auto split: sum.splits)
  from ss assms(2) have "2 \<le> length ss" by (simp add: toStrs_length)
  then have "CHR '','' \<in> set s" unfolding s by (rule join_comma_mem)
  then have "\<not> list_all isDigit s" using comma_not_digit by (auto simp: list_all_iff)
  then show ?thesis by (simp add: matches8Digits_def)
qed

lemma toStr_Obj_no_match: "toStr (Obj kvs) = Inr s \<Longrightarrow> \<not> matches8Digits s"
  by (auto simp: matches8Digits_def split: if_splits)

lemma billNumberInvalid_False_iff:
  "billNumberInvalid b = Inr False \<longleftrightarrow> (\<exists>s. b = Str s \<and> matches8Digits s)"
proof (cases b)
  case (Arr xs)
  then show ?thesis
    using toStr_Arr_no_match[of xs]
    by (auto simp: billNumberInvalid_def regexTest_def split: sum.splits)
next
  case (Obj kvs)
  then show ?thesis
    using toStr_Obj_no_match[of kvs]
    by (auto simp: billNumberInvalid_def regexTest_def split: sum.splits)
next
  case (Str s)
  then show ?thesis
    by (auto simp: billNumberInvalid_def regexTest_def matches8Digits_def)
qed (auto simp: billNumberInvalid_def)

lemma spec_billOk_iff: "spec_billOk item \<longleftrightarrow> (\<exists>s. ownProp item ''originalBillNumber'' = Str s \<and> matches8Digits s)"
  by (auto simp: spec_billOk_def matches8Digits_def split: jsval.splits)

lemma spec_failingIndices_Nil: "spec_failingIndices [] = []"
  by (simp add: spec_failingIndices_def)

lemma spec_failingIndices_Cons:
  "spec_failingIndices (x # xs) =
     (if spec_billOk x then [] else [0]) @ map Suc (spec_failingIndices xs)"
proof -
  have "[0..<length (x # xs)] = 0 # map Suc [0..<length xs]"
    by (simp add: upt_conv_Cons map_Suc_upt del: upt_Suc)
  then show ?thesis
    by (simp add: spec_failingIndices_def filter_map comp_def del: upt_Suc)
qed

lemma billNumberInvalid_result:
  "billNumberInvalid (ownProp item ''originalBillNumber'') = Inr bad \<Longrightarrow> bad = (\<not> spec_billOk item)"
  using billNumberInvalid_False_iff[of "ownProp item ''originalBillNumber''"]
  by (cases bad) (auto simp: spec_billOk_iff)

lemma checkItems_records:
  "checkItems i lineItems = Inr recs \<Longrightarrow>
   recs = map (\<lambda>j. mkRecord (i + j) (lineItems ! j)) (spec_failingIndices lineItems)"
proof (induction lineItems arbitrary: i recs)
  case Nil
  then show ?case by (simp add: spec_failingIndices_Nil)
next
  case (Cons x xs)
  from Cons.prems obtain bad others where
    nn: "x \<noteq> Undefined" "x \<noteq> Null"
    and bad: "billNumberInvalid (ownProp x ''originalBillNumber'') = Inr bad"
    and rest: "checkItems (Suc i) xs = Inr others"
    and recs: "recs = (if bad then [mkRecord i x] else []) @ others"
    by (auto simp: getProp_def mkRecord_def Let_def split: sum.splits if_splits)
  from bad have b: "bad = (\<not> spec_billOk x)" by (rule billNumberInvalid_result)
  from Cons.IH[OF rest]
  have "others = map (\<lambda>j. mkRecord (Suc i + j) (xs ! j)) (spec_failingIndices xs)" .
  then show ?case
    by (simp add: recs b spec_failingIndices_Cons comp_def)
qed

lemma checkItems_indices:
  "checkItems 0 lineItems = Inr recs \<Longrightarrow> map item_index recs = spec_failingIndices lineItems"
  by (drule checkItems_records) (simp add: comp_def mkRecord_def Let_def)

lemma plainLineItem_bill:
  "plainLineItem item \<Longrightarrow>
     ownProp item ''originalBillNumber'' = Undefined \<or> ownProp item ''originalBillNumber'' = Null
     \<or> (\<exists>s. ownProp item ''originalBillNumber'' = Str s)"
  unfolding plainLineItem_def by (cases "ownProp item ''originalBillNumber''") simp_all

lemma plainLineItem_narda:
  "plainLineItem item \<Longrightarrow>
     ownProp item ''nardaNumber'' = Undefined \<or> (\<exists>n. ownProp item ''nardaNumber'' = Str n)"
  unfolding plainLineItem_def by (cases "ownProp item ''nardaNumber''") simp_all

lemma plainLineItem_nonnull: "plainLineItem item \<Longrightarrow> item \<noteq> Undefined \<and> item \<noteq> Null"
  unfolding plainLineItem_def by simp

lemma plain_billNumberInvalid:
  assumes "plainLineItem item"
  shows "billNumberInvalid (ownProp item ''originalBillNumber'') = Inr (\<not> spec_billOk item)"
  using plainLineItem_bill[OF assms]
  by (auto simp: billNumberInvalid_def regexTest_def spec_billOk_def matches8Digits_def)

lemma checkItems_plain:
  "\<forall>item\<in>set lineItems. plainLineItem item \<Longrightarrow> \<exists>recs. checkItems i lineItems = Inr recs"
proof (induction lineItems arbitrary: i)
  case Nil
  then show ?case by simp
next
  case (Cons x xs)
  then obtain others where "checkItems (Suc i) xs = Inr others" by fastforce
  moreover from Cons.prems have "plainLineItem x" by simp
  ultimately show ?case
    using plainLineItem_nonnull[of x]
    by (simp add: getProp_def plain_billNumberInvalid)
qed

lemma renderItem_plain:
  assumes "plainLineItem item" and "\<not> spec_billOk item"
  shows "renderItem (mkRecord i item) = Inr (spec_reasonLine i item)"
proof -
  from plainLineItem_narda[OF assms(1)]
  obtain n where n: "toStr (ownProp item ''nardaNumber'') = Inr n"
    and n': "n = (case ownProp item ''nardaNumber'' of Str n \<Rightarrow> n | _ \<Rightarrow> ''undefined'')"
    by auto
  from plainLineItem_bill[OF assms(1)]
  consider "ownProp item ''originalBillNumber'' = Undefined" | "ownProp item ''originalBillNumber'' = Null"
    | "ownProp item ''originalBillNumber'' = Str []"
    | s where "ownProp item ''originalBillNumber'' = Str s" "s \<noteq> []"
    by (metis)
  then show ?thesis
  proof cases
    case 1
    then show ?thesis by (simp add: renderItem_def mkRecord_def spec_reasonLine_def n n'[symmetric] showInt_def)
  next
    case 2
    then show ?thesis by (simp add: renderItem_def mkRecord_def spec_reasonLine_def n n'[symmetric] showInt_def)
  next
    case 3
    then show ?thesis by (simp add: renderItem_def mkRecord_def spec_reasonLine_def n n'[symmetric] showInt_def)
  next
    case 4
    then show ?thesis by (simp add: renderItem_def mkRecord_def spec_reasonLine_def n n'[symmetric] showInt_def del: showNat.simps)
  qed
qed

lemma lineItems_holder:
  "getProp extractedData ''lineItems'' = Inr (Arr lineItems) \<Longrightarrow> truthy extractedData"
  by (cases extractedData) (auto simp: getProp_def split: if_splits)

lemma spec_billOk_returns:
  "\<forall>item\<in>set lineItems. spec_billOk item \<Longrightarrow> checkItems i lineItems = Inr []"
proof (induction lineItems arbitrary: i)
  case Nil
  then show ?case by simp
next
  case (Cons x xs)
  from Cons.prems have ok: "spec_billOk x" by simp
  then obtain s where s: "ownProp x ''originalBillNumber'' = Str s" "matches8Digits s"
    by (auto simp: spec_billOk_iff)
  then have nn: "x \<noteq> Undefined" "x \<noteq> Null" by auto
  from s have "billNumberInvalid (ownProp x ''originalBillNumber'') = Inr False"
    by (simp add: billNumberInvalid_False_iff)
  moreover from Cons have "checkItems (Suc i) xs = Inr []" by simp
  ultimately show ?case using nn by (simp add: getProp_def)
qed

lemma renderItems_plain:
  "\<forall>j\<in>set js. plainLineItem (lineItems ! j) \<and> \<not> spec_billOk (lineItems ! j) \<Longrightarrow>
   renderItems (map (\<lambda>j. mkRecord (i + j) (lineItems ! j)) js)
     = Inr (map (\<lambda>j. spec_reasonLine (i + j) (lineItems ! j)) js)"
  by (induction js) (simp_all add: renderItem_plain)

lemma spec_failingIndices_set:
  "set (spec_failingIndices lineItems) = {j. j < length lineItems \<and> \<not> spec_billOk (lineItems ! j)}"
  by (auto simp: spec_failingIndices_def)

lemma spec_failingIndices_nonempty:
  "\<exists>item\<in>set lineItems. \<not> spec_billOk item \<Longrightarrow> spec_failingIndices lineItems \<noteq> []"
proof -
  assume "\<exists>item\<in>set lineItems. \<not> spec_billOk item"
  then obtain j where "j < length lineItems" "\<not> spec_billOk (lineItems ! j)"
    by (auto simp: in_set_conv_nth)
  then have "j \<in> set (spec_failingIndices lineItems)" by (simp add: spec_failingIndices_set)
  then show ?thesis by auto
qed

lemma validate_Valid_records:
  assumes "getProp extractedData ''lineItems'' = Inr (Arr lineItems)"
    and "validateBillNumbers extractedData = Inr ValidResult"
  shows "checkItems 0 lineItems = Inr []"
  using assms lineItems_holder[OF assms(1)]
  by (auto simp: validateBillNumbers_def split: sum.splits list.splits)

lemma validate_returns_records:
  assumes "getProp extractedData ''lineItems'' = Inr (Arr lineItems)"
    and "validateBillNumbers extractedData = Inr r"
  shows "\<exists>recs. checkItems 0 lineItems = Inr recs
           \<and> (recs = [] \<and> r = ValidResult \<or> recs \<noteq> [] \<and> (\<exists>txt. r = InvalidResult txt recs))"
  using assms lineItems_holder[OF assms(1)]
  by (auto simp: validateBillNumbers_def split: sum.splits list.splits)

lemma validate_returns_indices:
  assumes "getProp extractedData ''lineItems'' = Inr (Arr lineItems)"
    and "validateBillNumbers extractedData = Inr r"
  shows "(valid r \<longleftrightarrow> (\<forall>item\<in>set lineItems. spec_billOk item))
       \<and> (\<not> valid r \<longrightarrow> map item_index (invalidItems r) = spec_failingIndices lineItems)"
proof -
  from validate_returns_records[OF assms] obtain recs where
    recs: "checkItems 0 lineItems = Inr recs"
    and shape: "recs = [] \<and> r = ValidResult \<or> recs \<noteq> [] \<and> (\<exists>txt. r = InvalidResult txt recs)"
    by blast
  have idx: "map item_index recs = spec_failingIndices lineItems"
    using checkItems_indices[OF recs] .
  have "recs = [] \<longleftrightarrow> (\<forall>item\<in>set lineItems. spec_billOk item)"
  proof
    assume "recs = []"
    with idx have "set (spec_failingIndices lineItems) = {}" by simp
    then show "\<forall>item\<in>set lineItems. spec_billOk item"
      unfolding spec_failingIndices_set by (auto simp: in_set_conv_nth)
  next
    assume "\<forall>item\<in>set lineItems. spec_billOk item"
    then have "set (spec_failingIndices lineItems) = {}"
      unfolding spec_failingIndices_set by auto
    with idx show "recs = []" by simp
  qed
  with shape idx show ?thesis by (auto simp: valid_def)
qed

text \<open>
  Claim C4. For an extraction result with a line-items list: when every entry's bill-number
  field is present, non-empty and exactly 8 ASCII digits, the validator returns
  \<open>valid = true\<close>; when an entry fails this, it returns \<open>valid = false\<close>, the indices of the
  collected records are exactly the 0-based indices of the failing entries, and the reason
  lists for each of them its 1-based number, its NARDA identifier, the value in quotes (or
  the marker \<^verbatim>\<open>(empty)\<close>) and its length against the required 8. The second part is for
  entries whose bill number is absent, \<^verbatim>\<open>null\<close> or a string and whose NARDA identifier is
  absent or a string (\<open>plainLineItem\<close>); \<open>spec_billOk\<close>, \<open>spec_failingIndices\<close> and
  \<open>spec_reason\<close> are written from the claim's words. The third part is for entries of any
  shape: whenever the validator returns, it returns \<open>valid = true\<close> exactly when every entry
  is in order, and otherwise with exactly the indices of the failing entries. (On an entry
  that is \<^verbatim>\<open>null\<close> the validator throws instead of returning.)
\<close>

theorem validateBillNumbers_rule:
  assumes "getProp extractedData ''lineItems'' = Inr (Arr lineItems)"
  shows "((\<forall>item\<in>set lineItems. spec_billOk item) \<longrightarrow>
            validateBillNumbers extractedData = Inr ValidResult)
       \<and> ((\<forall>item\<in>set lineItems. plainLineItem item) \<and> (\<exists>item\<in>set lineItems. \<not> spec_billOk item) \<longrightarrow>
            (\<exists>r. validateBillNumbers extractedData = Inr r \<and> \<not> valid r
                 \<and> map item_index (invalidItems r) = spec_failingIndices lineItems
                 \<and> reason r = spec_reason lineItems))
       \<and> (\<forall>r. validateBillNumbers extractedData = Inr r \<longrightarrow>
            (valid r \<longleftrightarrow> (\<forall>item\<in>set lineItems. spec_billOk item))
            \<and> (\<not> valid r \<longrightarrow> map item_index (invalidItems r) = spec_failingIndices lineItems))"
proof (intro conjI impI allI)
  fix r assume "validateBillNumbers extractedData = Inr r"
  from validate_returns_indices[OF assms this]
  show "valid r \<longleftrightarrow> (\<forall>item\<in>set lineItems. spec_billOk item)"
    and "\<not> valid r \<Longrightarrow> map item_index (invalidItems r) = spec_failingIndices lineItems"
    by blast+
next
  assume "\<forall>item\<in>set lineItems. spec_billOk item"
  then have "checkItems 0 lineItems = Inr []" by (rule spec_billOk_returns)
  then show "validateBillNumbers extractedData = Inr ValidResult"
    using assms lineItems_holder[OF assms] by (simp add: validateBillNumbers_def)
next
  assume a: "(\<forall>item\<in>set lineItems. plainLineItem item) \<and> (\<exists>item\<in>set lineItems. \<not> spec_billOk item)"
  then obtain recs where recs: "checkItems 0 lineItems = Inr recs"
    using checkItems_plain[of lineItems 0] by auto
  have recs_eq: "recs = map (\<lambda>j. mkRecord (0 + j) (lineItems ! j)) (spec_failingIndices lineItems)"
    using checkItems_records[OF recs] .
  from a have ne: "spec_failingIndices lineItems \<noteq> []"
    by (simp add: spec_failingIndices_nonempty)
  then obtain it its where cons: "recs = it # its"
    unfolding recs_eq by (cases "spec_failingIndices lineItems") auto
  have "\<forall>j\<in>set (spec_failingIndices lineItems). plainLineItem (lineItems ! j) \<and> \<not> spec_billOk (lineItems ! j)"
    using a by (auto simp: spec_failingIndices_set)
  then have "renderItems recs = Inr (map (\<lambda>j. spec_reasonLine (0 + j) (lineItems ! j)) (spec_failingIndices lineItems))"
    unfolding recs_eq by (rule renderItems_plain)
  then have "validateBillNumbers extractedData =
      Inr (InvalidResult (spec_reason lineItems) recs)"
    using assms lineItems_holder[OF assms] recs cons
    by (simp add: validateBillNumbers_def spec_reason_def)
  moreover have "map item_index recs = spec_failingIndices lineItems"
    using checkItems_indices[OF recs] .
  ultimately show "\<exists>r. validateBillNumbers extractedData = Inr r \<and> \<not> valid r
                 \<and> map item_index (invalidItems r) = spec_failingIndices lineItems
                 \<and> reason r = spec_reason lineItems"
    by (simp add: valid_def)
qed

theorem validateBillNumbers_rule_witness:
  "validateBillNumbers (Obj [(''lineItems'', Arr [Obj [(''originalBillNumber'', Str ''66811026'')]])]) = Inr ValidResult
   \<and> (\<exists>r. validateBillNumbers
             (Obj [(''lineItems'',
                    Arr [Obj [(''nardaNumber'', Str ''CORE''), (''originalBillNumber'', Str ''66811026'')],
                         Obj [(''nardaNumber'', Str ''NF''), (''originalBillNumber'', Str ''668110'')],
                         Obj [(''totalAmount'', Str ''($1.00)'')]])]) = Inr r
          \<and> \<not> valid r
          \<and> map item_index (invalidItems r) = [1, 2]
          \<and> reason r = ''Invalid bill numbers found: Line 2 (NARDA: NF): \"668110\" is 6 digits (need 8); Line 3 (NARDA: undefined): \"(empty)\" is 0 digits (need 8)'')"
proof -
  let ?good = "Obj [(''nardaNumber'', Str ''CORE''), (''originalBillNumber'', Str ''66811026'')]"
  let ?short = "Obj [(''nardaNumber'', Str ''NF''), (''originalBillNumber'', Str ''668110'')]"
  let ?missing = "Obj [(''totalAmount'', Str ''($1.00)'')]"
  let ?items1 = "[Obj [(''originalBillNumber'', Str ''66811026'')]]"
  let ?items2 = "[?good, ?short, ?missing]"
  have h1: "getProp (Obj [(''lineItems'', Arr ?items1)]) ''lineItems'' = Inr (Arr ?items1)"
    by (simp add: getProp_def)
  have a1: "\<forall>item\<in>set ?items1. spec_billOk item"
    by (simp add: spec_billOk_def isDigit_def)
  have h2: "getProp (Obj [(''lineItems'', Arr ?items2)]) ''lineItems'' = Inr (Arr ?items2)"
    by (simp add: getProp_def)
  have a2: "(\<forall>item\<in>set ?items2. plainLineItem item) \<and> (\<exists>item\<in>set ?items2. \<not> spec_billOk item)"
    by (simp add: plainLineItem_def spec_billOk_def)
  have f: "spec_failingIndices ?items2 = [1, 2]"
    by code_simp
  have r: "spec_reason ?items2 = ''Invalid bill numbers found: Line 2 (NARDA: NF): \"668110\" is 6 digits (need 8); Line 3 (NARDA: undefined): \"(empty)\" is 0 digits (need 8)''"
    by code_simp
  from validateBillNumbers_rule[OF h1] a1
  have c1: "validateBillNumbers (Obj [(''lineItems'', Arr ?items1)]) = Inr ValidResult" by blast
  from validateBillNumbers_rule[OF h2] a2
  have c2: "\<exists>r. validateBillNumbers (Obj [(''lineItems'', Arr ?items2)]) = Inr r \<and> \<not> valid r
                 \<and> map item_index (invalidItems r) = spec_failingIndices ?items2
                 \<and> reason r = spec_reason ?items2" by blast
  from c1 c2 show ?thesis unfolding f r by blast
qed

text \<open>
  Claim C10. Whenever the validator returns \<open>valid = true\<close> for a line-items list, the
  bill-number field of every entry is a string of exactly 8 ASCII digits; and an entry whose
  field holds anything but a string (the number 12345678, say) never lets the validator
  return \<open>valid = true\<close>, and is among the invalid items whenever the validator returns.
\<close>

theorem validateBillNumbers_non_string:
  assumes "getProp extractedData ''lineItems'' = Inr (Arr lineItems)"
  shows "(validateBillNumbers extractedData = Inr ValidResult \<longrightarrow>
            (\<forall>item\<in>set lineItems. \<exists>s. ownProp item ''originalBillNumber'' = Str s
                                      \<and> length s = 8 \<and> list_all isDigit s))
       \<and> (\<forall>i<length lineItems. (\<forall>s. ownProp (lineItems ! i) ''originalBillNumber'' \<noteq> Str s) \<longrightarrow>
            validateBillNumbers extractedData \<noteq> Inr ValidResult
            \<and> (\<forall>r. validateBillNumbers extractedData = Inr r \<longrightarrow> i \<in> set (map item_index (invalidItems r))))"
proof -
  have idx: "r \<noteq> ValidResult \<and> i \<in> set (map item_index (invalidItems r))"
    if r: "validateBillNumbers extractedData = Inr r" and i: "i < length lineItems"
      and bad: "\<not> spec_billOk (lineItems ! i)" for r i
  proof -
    from validate_returns_records[OF assms r] obtain recs where
      recs: "checkItems 0 lineItems = Inr recs"
      and shape: "recs = [] \<and> r = ValidResult \<or> recs \<noteq> [] \<and> (\<exists>txt. r = InvalidResult txt recs)"
      by blast
    from i bad have "i \<in> set (spec_failingIndices lineItems)" by (simp add: spec_failingIndices_set)
    then have mem: "i \<in> set (map item_index recs)" using checkItems_indices[OF recs] by simp
    then have "recs \<noteq> []" by auto
    with shape mem show ?thesis by auto
  qed
  have all_ok: "spec_billOk item"
    if v: "validateBillNumbers extractedData = Inr ValidResult" and m: "item \<in> set lineItems" for item
  proof (rule ccontr)
    assume n: "\<not> spec_billOk item"
    from m obtain i where i: "i < length lineItems" "lineItems ! i = item" by (auto simp: in_set_conv_nth)
    from idx[OF v i(1)] n i(2) show False by simp
  qed
  show ?thesis
  proof (intro conjI impI allI ballI)
    fix item assume "validateBillNumbers extractedData = Inr ValidResult" "item \<in> set lineItems"
    then have "spec_billOk item" by (rule all_ok)
    then show "\<exists>s. ownProp item ''originalBillNumber'' = Str s \<and> length s = 8 \<and> list_all isDigit s"
      by (auto simp: spec_billOk_iff matches8Digits_def)
  next
    fix i assume i: "i < length lineItems" and ns: "\<forall>s. ownProp (lineItems ! i) ''originalBillNumber'' \<noteq> Str s"
    then have bad: "\<not> spec_billOk (lineItems ! i)" by (simp add: spec_billOk_iff)
    show "validateBillNumbers extractedData \<noteq> Inr ValidResult"
    proof
      assume "validateBillNumbers extractedData = Inr ValidResult"
      from idx[OF this i bad] show False by simp
    qed
  next
    fix i r assume i: "i < length lineItems" and ns: "\<forall>s. ownProp (lineItems ! i) ''originalBillNumber'' \<noteq> Str s"
      and r: "validateBillNumbers extractedData = Inr r"
    from ns have bad: "\<not> spec_billOk (lineItems ! i)" by (simp add: spec_billOk_iff)
    from idx[OF r i bad] show "i \<in> set (map item_index (invalidItems r))" by simp
  qed
qed

theorem validateBillNumbers_non_string_witness:
  "validateBillNumbers (Obj [(''lineItems'', Arr [Obj [(''originalBillNumber'', Num 12345678)]])]) \<noteq> Inr ValidResult
   \<and> validateBillNumbers (Obj [(''lineItems'', Arr [Obj [(''originalBillNumber'', Str ''12345678'')]])]) = Inr ValidResult
   \<and> (\<exists>s. ownProp (Obj [(''originalBillNumber'', Str ''12345678'')]) ''originalBillNumber'' = Str s
            \<and> length s = 8 \<and> list_all isDigit s)"
proof -
  let ?num = "[Obj [(''originalBillNumber'', Num 12345678)]]"
  let ?str = "[Obj [(''originalBillNumber'', Str ''12345678'')]]"
  have h1: "getProp (Obj [(''lineItems'', Arr ?num)]) ''lineItems'' = Inr (Arr ?num)"
    by (simp add: getProp_def)
  have h2: "getProp (Obj [(''lineItems'', Arr ?str)]) ''lineItems'' = Inr (Arr ?str)"
    by (simp add: getProp_def)
  have v: "validateBillNumbers (Obj [(''lineItems'', Arr ?str)]) = Inr ValidResult"
    by code_simp
  from validateBillNumbers_non_string[OF h1]
  have c1: "validateBillNumbers (Obj [(''lineItems'', Arr ?num)]) \<noteq> Inr ValidResult"
    by simp
  from validateBillNumbers_non_string[OF h2] v
  have c2: "\<exists>s. ownProp (Obj [(''originalBillNumber'', Str ''12345678'')]) ''originalBillNumber'' = Str s
            \<and> length s = 8 \<and> list_all isDigit s"
    by simp
  from c1 v c2 show ?thesis by blast
qed

section \<open>Properties of the per-item pipeline and of the batch loop\<close>

lemma schedView_append [simp]: "schedView (a @ b) = schedView a @ schedView b"
  by (simp add: schedView_def)

lemma startedItems_append [simp]: "startedItems (a @ b) = startedItems a @ startedItems b"
  by (simp add: startedItems_def)

lemma finishedItems_append [simp]: "finishedItems (a @ b) = finishedItems a @ finishedItems b"
  by (simp add: finishedItems_def)

lemma processedLog_append [simp]: "processedLog (a @ b) = processedLog a @ processedLog b"
  by (simp add: processedLog_def)

lemma oracleCalls_append [simp]: "oracleCalls (a @ b) = oracleCalls a @ oracleCalls b"
  by (simp add: oracleCalls_def)

lemma emit_trace [simp]: "trace (emit ev st) = trace st @ [ev]"
  and emit_processedCount [simp]: "processedCount (emit ev st) = processedCount st"
  and emit_successCount [simp]: "successCount (emit ev st) = successCount st"
  and emit_failCount [simp]: "failCount (emit ev st) = failCount st"
  by (simp_all add: emit_def)

lemma quiet_Nil [simp]: "quiet [] k" by (simp add: quiet_def schedView_def startedItems_def)

lemma quiet_append [simp]: "quiet (a @ b) k \<longleftrightarrow> quiet a k \<and> quiet b k"
  by (auto simp: quiet_def)

lemma quiet_single [simp]:
  "quiet [Started j] k \<longleftrightarrow> j = k"
  "quiet [OracleCall j pr] k"
  "quiet [SaveResult j d] k"
  "quiet [Upload j d] k"
  "quiet [Backoff j ms] k"
  by (auto simp: quiet_def schedView_def startedItems_def)

lemma processPdfWithClaude_run:
  "processPdfWithClaude e k rc p c st = (r, st') \<Longrightarrow>
     \<exists>pr. trace st' = trace st @ [OracleCall k pr] \<and> sameCounters st st'"
  by (auto simp: processPdfWithClaude_def Let_def sameCounters_def split: sum.splits)

lemma parseAndValidate_run:
  assumes "parseAndValidate e k rc p a st = (d, st')"
  shows "\<exists>evs. trace st' = trace st @ evs \<and> quiet evs k \<and> sameCounters st st'"
proof -
  have base: "\<exists>evs. trace st = trace st @ evs \<and> quiet evs k \<and> sameCounters st st"
    by (intro exI[of _ "[]"]) (simp add: sameCounters_def)
  have retry: "\<exists>evs. trace s1 = trace st @ evs \<and> quiet evs k \<and> sameCounters st s1"
    if "processPdfWithClaude e k rc p c st = (r, s1)" for c r s1
    using processPdfWithClaude_run[OF that] by force
  show ?thesis
    using assms base retry
    unfolding parseAndValidate_def
    by (auto simp: Let_def split: option.splits sum.splits if_splits prod.splits claudeResult.splits)
qed

lemma sameCounters_refl [simp]: "sameCounters st st"
  by (simp add: sameCounters_def)

lemma sameCounters_emit [simp]: "sameCounters st (emit ev st') \<longleftrightarrow> sameCounters st st'"
  by (simp add: sameCounters_def)

lemma sameCounters_trans: "sameCounters a b \<Longrightarrow> sameCounters b c \<Longrightarrow> sameCounters a c"
  by (simp add: sameCounters_def)

lemma quiet_Cons: "quiet (ev # evs) k \<longleftrightarrow> quiet [ev] k \<and> quiet evs k"
  using quiet_append[of "[ev]" evs k] by simp

lemma finishSuccess_run:
  assumes "finishSuccess k p s = (r, s')" and "trace s = trace st @ evs" and "quiet evs k" and "sameCounters st s"
  shows "\<exists>out. r = Inr out \<and> success out \<and> outcome_filename out = filename p \<and> outcome_error out = None
           \<and> endsItem st s' k out evs"
  using assms by (auto simp: finishSuccess_def Let_def endsItem_def sameCounters_def)

lemma finishFailure_run:
  assumes "finishFailure k p err s = (r, s')" and "trace s = trace st @ evs" and "quiet evs k" and "sameCounters st s"
  shows "\<exists>out. r = Inr out \<and> \<not> success out \<and> outcome_filename out = filename p \<and> outcome_error out = Some err
           \<and> endsItem st s' k out evs"
  using assms by (auto simp: finishFailure_def Let_def endsItem_def sameCounters_def)

lemma saveResult_run:
  "saveResult e k rc d s = (r, s') \<Longrightarrow> \<exists>evs. trace s' = trace s @ evs \<and> quiet evs k \<and> sameCounters s s'"
  by (auto simp: saveResult_def split: if_splits option.splits intro: exI[of _ "[]"])

lemma uploadToNetSuite_run:
  "\<exists>evs. trace (uploadToNetSuite e k d s) = trace s @ evs \<and> quiet evs k \<and> sameCounters s (uploadToNetSuite e k d s)"
  by (auto simp: uploadToNetSuite_def intro: exI[of _ "[]"])

lemma tryBody_run:
  assumes "tryBody e p k rc st = (r, st')"
  shows "(case r of
            Inl err \<Rightarrow> \<exists>evs. trace st' = trace st @ evs \<and> quiet evs k \<and> sameCounters st st'
          | Inr out \<Rightarrow> outcome_filename out = filename p \<and> (\<exists>evs. endsItem st st' k out evs))"
proof (cases "savePdf e k rc")
  case (Some err)
  with assms show ?thesis by (auto simp: tryBody_def Let_def)
next
  case None
  obtain result st1 where c: "processPdfWithClaude e k rc p None (emit (Started k) st) = (result, st1)"
    by (cases "processPdfWithClaude e k rc p None (emit (Started k) st)") auto
  from processPdfWithClaude_run[OF c] obtain pr where
    t1: "trace st1 = trace st @ [Started k, OracleCall k pr]" and s1: "sameCounters st st1"
    by (auto simp: sameCounters_def)
  have q1: "quiet [Started k, OracleCall k pr] k"
    using quiet_append[of "[Started k]" "[OracleCall k pr]" k] by simp
  show ?thesis
  proof (cases result)
    case (ClaudeFailure err)
    with assms None c have "finishFailure k p err st1 = (r, st')"
      by (simp add: tryBody_def Let_def)
    from finishFailure_run[OF this t1 q1 s1] show ?thesis by auto
  next
    case (ClaudeSuccess analysis)
    obtain d st2 where pv: "parseAndValidate e k rc p analysis st1 = (d, st2)"
      by (cases "parseAndValidate e k rc p analysis st1") auto
    from parseAndValidate_run[OF pv] obtain evs2 where
      t2: "trace st2 = trace st1 @ evs2" and q2: "quiet evs2 k" and s2: "sameCounters st1 st2" by blast
    obtain sr st3 where sv: "saveResult e k rc d st2 = (sr, st3)"
      by (cases "saveResult e k rc d st2") auto
    from saveResult_run[OF sv] obtain evs3 where
      t3: "trace st3 = trace st2 @ evs3" and q3: "quiet evs3 k" and s3: "sameCounters st2 st3" by blast
    have t3': "trace st3 = trace st @ ([Started k, OracleCall k pr] @ evs2 @ evs3)"
      by (simp add: t1 t2 t3)
    have q3': "quiet ([Started k, OracleCall k pr] @ evs2 @ evs3) k"
      using q1 q2 q3 by (simp only: quiet_append)
    have s3': "sameCounters st st3"
      using s1 s2 s3 by (blast intro: sameCounters_trans)
    show ?thesis
    proof (cases sr)
      case (Some err)
      with assms None c ClaudeSuccess pv sv have "r = Inl err \<and> st' = st3"
        by (simp add: tryBody_def Let_def)
      with t3' q3' s3' show ?thesis by auto
    next
      case None': None
      define st4 where "st4 = (if truthy d then uploadToNetSuite e k d st3 else st3)"
      have "\<exists>evs4. trace st4 = trace st3 @ evs4 \<and> quiet evs4 k \<and> sameCounters st3 st4"
      proof (cases "truthy d")
        case True
        then show ?thesis using uploadToNetSuite_run[of e k d st3] by (simp add: st4_def)
      next
        case False
        then show ?thesis by (simp add: st4_def)
      qed
      then obtain evs4 where
        t4: "trace st4 = trace st3 @ evs4" and q4: "quiet evs4 k" and s4: "sameCounters st3 st4"
        by blast
      have fin: "finishSuccess k p st4 = (r, st')"
        using assms None c ClaudeSuccess pv sv None' by (simp add: tryBody_def Let_def st4_def)
      have t4': "trace st4 = trace st @ (([Started k, OracleCall k pr] @ evs2 @ evs3) @ evs4)"
        by (simp add: t3' t4)
      have q4': "quiet (([Started k, OracleCall k pr] @ evs2 @ evs3) @ evs4) k"
        using q3' q4 by (simp only: quiet_append)
      have s4': "sameCounters st st4" using s3' s4 by (blast intro: sameCounters_trans)
      from finishSuccess_run[OF fin t4' q4' s4'] show ?thesis by auto
    qed
  qed
qed

lemma processSinglePdf_run:
  "\<exists>out st' evs. processSinglePdf e p k rc st = (Inr out, st') \<and> outcome_filename out = filename p
       \<and> endsItem st st' k out evs"
proof (induction e p k rc st rule: processSinglePdf.induct)
  case (1 e p k rc st)
  obtain r st1 where tb: "tryBody e p k rc st = (r, st1)"
    by (cases "tryBody e p k rc st") auto
  note run = tryBody_run[OF tb]
  show ?case
  proof (cases r)
    case (Inr out)
    with tb run show ?thesis
      by (subst processSinglePdf.simps) auto
  next
    case (Inl err)
    with run obtain evs1 where
      t1: "trace st1 = trace st @ evs1" and q1: "quiet evs1 k" and s1: "sameCounters st st1" by auto
    show ?thesis
    proof (cases "isRateLimitError err \<and> rc < RETRY_ATTEMPTS")
      case True
      let ?st2 = "emit (Backoff k (2 ^ rc * 10 * 1000)) st1"
      from "1.IH"[OF tb[symmetric] Inl True] obtain out st' evs where
        rec: "processSinglePdf e p k (rc + 1) ?st2 = (Inr out, st')"
        and fn: "outcome_filename out = filename p"
        and en: "endsItem ?st2 st' k out evs" by blast
      have "processSinglePdf e p k rc st = (Inr out, st')"
        using tb Inl True rec by (subst processSinglePdf.simps) simp
      moreover have "endsItem st st' k out (evs1 @ [Backoff k (2 ^ rc * 10 * 1000)] @ evs)"
        using en q1 s1 t1 by (simp add: endsItem_def sameCounters_def quiet_Cons[of "Backoff k ms" for ms])
      ultimately show ?thesis using fn by blast
    next
      case False
      obtain r' st' where ff: "finishFailure k p (message err) st1 = (r', st')"
        by (cases "finishFailure k p (message err) st1") auto
      from finishFailure_run[OF ff t1 q1 s1] obtain out where
        "r' = Inr out" "outcome_filename out = filename p" "endsItem st st' k out evs1" by blast
      moreover have "processSinglePdf e p k rc st = (r', st')"
        using tb Inl False ff by (subst processSinglePdf.simps) auto
      ultimately show ?thesis by blast
    qed
  qed
qed

lemma quiet_no_finish:
  "schedView evs = [] \<Longrightarrow> finishedItems evs = [] \<and> processedLog evs = []"
proof (induction evs)
  case Nil
  then show ?case by (simp add: finishedItems_def processedLog_def)
next
  case (Cons ev evs)
  then show ?case
    by (cases ev) (simp_all add: schedView_def finishedItems_def processedLog_def)
qed

lemma endsItem_views:
  assumes "endsItem st st' k out evs"
  shows "\<exists>inc. trace st' = trace st @ inc \<and> schedView inc = [ItemDone k]
           \<and> set (startedItems inc) \<subseteq> {k} \<and> finishedItems inc = [k]
           \<and> processedLog inc = [processedCount st + 1]
           \<and> processedCount st' = processedCount st + 1"
proof -
  let ?fin = "Finished k (success out) (processedCount st + 1) (successCount st') (failCount st')"
  from assms have t: "trace st' = trace st @ (evs @ [?fin])" and q: "quiet evs k"
    and c: "processedCount st' = processedCount st + 1"
    by (simp_all add: endsItem_def)
  from q have sv: "schedView evs = []" and si: "set (startedItems evs) \<subseteq> {k}"
    by (simp_all add: quiet_def)
  from quiet_no_finish[OF sv] have nf: "finishedItems evs = []" "processedLog evs = []" by simp_all
  have "schedView (evs @ [?fin]) = [ItemDone k]" using sv by (simp add: schedView_def)
  moreover have "set (startedItems (evs @ [?fin])) \<subseteq> {k}" using si by (simp add: startedItems_def)
  moreover have "finishedItems (evs @ [?fin]) = [k]" using nf by (simp add: finishedItems_def)
  moreover have "processedLog (evs @ [?fin]) = [processedCount st + 1]" using nf by (simp add: processedLog_def)
  ultimately show ?thesis using t c by blast
qed

lemma runItems:
  "\<exists>inc. trace (foldl (\<lambda>s k. snd (processSinglePdf e (pdfs ! k) k 0 s)) st ks) = trace st @ inc
      \<and> schedView inc = map ItemDone ks
      \<and> set (startedItems inc) \<subseteq> set ks
      \<and> finishedItems inc = ks
      \<and> processedLog inc = [processedCount st + 1 ..< processedCount st + 1 + length ks]
      \<and> processedCount (foldl (\<lambda>s k. snd (processSinglePdf e (pdfs ! k) k 0 s)) st ks)
          = processedCount st + length ks"
proof (induction ks arbitrary: st)
  case Nil
  show ?case by (intro exI[of _ "[]"]) (simp add: schedView_def startedItems_def finishedItems_def processedLog_def)
next
  case (Cons k ks)
  let ?F = "\<lambda>s k. snd (processSinglePdf e (pdfs ! k) k 0 s)"
  from processSinglePdf_run[of e "pdfs ! k" k 0 st] obtain out st1 evs where
    r: "processSinglePdf e (pdfs ! k) k 0 st = (Inr out, st1)" and en: "endsItem st st1 k out evs"
    by blast
  from endsItem_views[OF en] obtain inc1 where
    a: "trace st1 = trace st @ inc1" "schedView inc1 = [ItemDone k]" "set (startedItems inc1) \<subseteq> {k}"
       "finishedItems inc1 = [k]" "processedLog inc1 = [processedCount st + 1]"
       "processedCount st1 = processedCount st + 1"
    by blast
  from Cons.IH[of st1] obtain inc2 where
    b: "trace (foldl ?F st1 ks) = trace st1 @ inc2" "schedView inc2 = map ItemDone ks"
       "set (startedItems inc2) \<subseteq> set ks" "finishedItems inc2 = ks"
       "processedLog inc2 = [processedCount st1 + 1 ..< processedCount st1 + 1 + length ks]"
       "processedCount (foldl ?F st1 ks) = processedCount st1 + length ks"
    by blast
  have step: "foldl ?F st (k # ks) = foldl ?F st1 ks" using r by simp
  have u: "[a ..< a + Suc n] = a # [Suc a ..< Suc a + n]" for a n :: nat
    by (simp add: upt_conv_Cons del: upt_Suc)
  have pl: "processedLog (inc1 @ inc2) = [processedCount st + 1 ..< processedCount st + 1 + length (k # ks)]"
    using a(5,6) b(5) u[of "processedCount st + 1" "length ks"] by simp
  show ?case
    unfolding step
    using a b pl
    by (intro exI[of _ "inc1 @ inc2"]) auto
qed

lemma spec_groups_length: "length (spec_groups N) = (N + 2) div 3"
  by (simp add: spec_groups_def)

lemma spec_groups_nth:
  assumes "g * 3 < N"
  shows "spec_groups N ! g = [g * 3 ..< min (g * 3 + 3) N]"
proof -
  from assms have g: "g < (N + 2) div 3" by arith
  then have "[0 ..< (N + 2) div 3] ! g = g" by simp
  moreover from g have "g < length [0 ..< (N + 2) div 3]" by simp
  ultimately show ?thesis unfolding spec_groups_def by (simp only: nth_map)
qed

lemma batchBody_run:
  assumes "g * 3 < length pdfs"
  shows "\<exists>inc. trace (batchBody e pdfs (g * 3) st) = trace st @ inc
      \<and> schedView inc = spec_groupBlock (finishTime e) (length pdfs) g
      \<and> set (startedItems inc) \<subseteq> {g * 3 ..< min (g * 3 + 3) (length pdfs)}
      \<and> finishedItems inc = sort_key (finishTime e) [g * 3 ..< min (g * 3 + 3) (length pdfs)]
      \<and> processedLog inc = [processedCount st + 1 ..< processedCount st + 1 + (min (g * 3 + 3) (length pdfs) - g * 3)]
      \<and> processedCount (batchBody e pdfs (g * 3) st) = processedCount st + (min (g * 3 + 3) (length pdfs) - g * 3)"
proof -
  define N where "N = length pdfs"
  define batch where "batch = [g * 3 ..< min (g * 3 + 3) N]"
  define ks where "ks = sort_key (finishTime e) batch"
  define ev1 where "ev1 = BatchStarted (g * 3 div BATCH_SIZE + 1) ((N + BATCH_SIZE - 1) div BATCH_SIZE) (length batch)"
  define ev3 where "ev3 = BatchCompleted (g * 3 div BATCH_SIZE + 1)"
  define st1 where "st1 = emit ev1 st"
  define st2 where "st2 = runBatch e pdfs batch st1"
  define st3 where "st3 = emit ev3 st2"
  define rest where "rest = (if g * 3 + 3 < N then [BatchDelay 5000] else [])"
  have lb: "length batch = min (g * 3 + 3) N - g * 3" by (simp add: batch_def)
  have lk: "length ks = length batch" by (simp add: ks_def)
  from runItems[of e pdfs st1 ks] obtain inc where
    r: "trace st2 = trace st1 @ inc" "schedView inc = map ItemDone ks"
       "set (startedItems inc) \<subseteq> set ks" "finishedItems inc = ks"
       "processedLog inc = [processedCount st1 + 1 ..< processedCount st1 + 1 + length ks]"
       "processedCount st2 = processedCount st1 + length ks"
    unfolding runBatch_def st2_def ks_def by blast
  have body: "batchBody e pdfs (g * 3) st = (if g * 3 + 3 < N then emit (BatchDelay 5000) st3 else st3)"
    unfolding batchBody_def Let_def st3_def st2_def st1_def ev1_def ev3_def batch_def N_def
    by (simp only: BATCH_SIZE_def BATCH_DELAY_MS_def)
  define whole where "whole = [ev1] @ inc @ [ev3] @ rest"
  have t: "trace (batchBody e pdfs (g * 3) st) = trace st @ whole"
    unfolding body whole_def rest_def using r(1) by (simp add: st3_def st1_def)
  have pause: "g + 1 < length (spec_groups N) \<longleftrightarrow> g * 3 + 3 < N"
    unfolding spec_groups_length by arith
  have grp: "spec_groups N ! g = batch"
    unfolding batch_def using assms by (simp only: spec_groups_nth N_def)
  have v1: "schedView [ev1] = [GroupStart (length batch)]" by (simp add: schedView_def ev1_def)
  have v3: "schedView [ev3] = [GroupEnd]" by (simp add: schedView_def ev3_def)
  have vr: "schedView rest = (if g + 1 < length (spec_groups N) then [Pause 5000] else [])"
    unfolding pause by (simp add: rest_def schedView_def)
  have sv: "schedView whole = spec_groupBlock (finishTime e) N g"
    unfolding whole_def spec_groupBlock_def grp
    by (simp only: schedView_append v1 v3 vr r(2) ks_def)
  have s1: "startedItems [ev1] = []" "startedItems [ev3] = []" "startedItems rest = []"
    by (simp_all add: startedItems_def ev1_def ev3_def rest_def)
  have si: "set (startedItems whole) \<subseteq> {g * 3 ..< min (g * 3 + 3) N}"
    unfolding whole_def startedItems_append s1 using r(3) by (simp add: ks_def batch_def)
  have f1: "finishedItems [ev1] = []" "finishedItems [ev3] = []" "finishedItems rest = []"
    by (simp_all add: finishedItems_def ev1_def ev3_def rest_def)
  have fi: "finishedItems whole = ks"
    unfolding whole_def finishedItems_append f1 using r(4) by simp
  have p1: "processedLog [ev1] = []" "processedLog [ev3] = []" "processedLog rest = []"
    by (simp_all add: processedLog_def ev1_def ev3_def rest_def)
  have pl: "processedLog whole = [processedCount st + 1 ..< processedCount st + 1 + (min (g * 3 + 3) N - g * 3)]"
    unfolding whole_def processedLog_append p1 using r(5) by (simp add: lk lb st1_def)
  have pc: "processedCount (batchBody e pdfs (g * 3) st) = processedCount st + (min (g * 3 + 3) N - g * 3)"
    unfolding body using r(6) by (simp add: st3_def st1_def lk lb)
  from t sv si fi pl pc show ?thesis
    unfolding ks_def batch_def N_def by blast
qed

lemma started_mem: "j \<in> set (startedItems (us @ Started j # post))"
  by (simp add: startedItems_def)

lemma startsAfterEarlierGroups_append:
  assumes tr: "startsAfterEarlierGroups tr"
    and inc: "\<forall>j\<in>set (startedItems inc). \<forall>i. i div 3 < j div 3 \<longrightarrow> i \<in> set (finishedItems tr)"
  shows "startsAfterEarlierGroups (tr @ inc)"
  unfolding startsAfterEarlierGroups_def
proof (intro allI impI)
  fix pre j post i
  assume eq: "tr @ inc = pre @ Started j # post" and less: "i div 3 < j div 3"
  from eq obtain us where
    "(tr = pre @ us \<and> us @ inc = Started j # post) \<or> (tr @ us = pre \<and> inc = us @ Started j # post)"
    by (auto simp: append_eq_append_conv2)
  then show "i \<in> set (finishedItems pre)"
  proof
    assume a: "tr = pre @ us \<and> us @ inc = Started j # post"
    show ?thesis
    proof (cases us)
      case Nil
      with a have "inc = Started j # post" "pre = tr" by simp_all
      then have "j \<in> set (startedItems inc)" using started_mem[of j "[]" post] by simp
      with inc less \<open>pre = tr\<close> show ?thesis by blast
    next
      case (Cons u us')
      with a have "tr = pre @ Started j # us'" by simp
      with tr less show ?thesis unfolding startsAfterEarlierGroups_def by blast
    qed
  next
    assume b: "tr @ us = pre \<and> inc = us @ Started j # post"
    then have "j \<in> set (startedItems inc)" using started_mem[of j us post] by simp
    with inc less have "i \<in> set (finishedItems tr)" by blast
    with b show ?thesis by auto
  qed
qed

lemma upt_split3:
  fixes a b c :: nat
  assumes "a \<le> b" and "b \<le> c"
  shows "[a ..< c] = [a ..< b] @ [b ..< c]"
proof -
  from assms(2) obtain k where c: "c = b + k" by (auto simp: le_iff_add)
  show ?thesis unfolding c using assms(1) by (rule upt_add_eq_append)
qed

lemma processBatches_run:
  "\<exists>inc. trace (processBatches e pdfs (g * 3) st) = trace st @ inc
      \<and> schedView inc = concat (map (spec_groupBlock (finishTime e) (length pdfs)) [g ..< (length pdfs + 2) div 3])
      \<and> mset (finishedItems inc) = mset [g * 3 ..< length pdfs]
      \<and> processedLog inc = [processedCount st + 1 ..< processedCount st + 1 + (length pdfs - g * 3)]
      \<and> processedCount (processBatches e pdfs (g * 3) st) = processedCount st + (length pdfs - g * 3)"
proof (induction "length pdfs - g * 3" arbitrary: g st rule: less_induct)
  case less
  define N where "N = length pdfs"
  show ?case
  proof (cases "g * 3 < N")
    case False
    then have p: "processBatches e pdfs (g * 3) st = st"
      by (subst processBatches.simps) (simp add: N_def)
    from False have e1: "[g ..< (length pdfs + 2) div 3] = []" by (simp add: N_def)
    from False have e2: "[g * 3 ..< length pdfs] = []" "length pdfs - g * 3 = 0" by (simp_all add: N_def)
    have v: "schedView [] = []" "finishedItems [] = []" "processedLog [] = []"
      by (simp_all add: schedView_def finishedItems_def processedLog_def)
    show ?thesis
      unfolding p e1 e2
      by (intro exI[of _ "[]"]) (simp add: v)
  next
    case True
    define st1 where "st1 = batchBody e pdfs (g * 3) st"
    define hi where "hi = min (g * 3 + 3) N"
    define g' where "g' = Suc g"
    have g'3: "g' * 3 = g * 3 + 3" by (simp add: g'_def)
    have unfold: "processBatches e pdfs (g * 3) st = processBatches e pdfs (g' * 3) st1"
      using True by (subst processBatches.simps) (simp add: N_def st1_def BATCH_SIZE_def g'3)
    from batchBody_run[of g pdfs e st] True obtain inc1 where
      a: "trace st1 = trace st @ inc1"
         "schedView inc1 = spec_groupBlock (finishTime e) N g"
         "finishedItems inc1 = sort_key (finishTime e) [g * 3 ..< hi]"
         "processedLog inc1 = [processedCount st + 1 ..< processedCount st + 1 + (hi - g * 3)]"
         "processedCount st1 = processedCount st + (hi - g * 3)"
      unfolding N_def st1_def hi_def by blast
    have "N - g' * 3 < N - g * 3" using True by (simp add: g'3)
    from less[OF this[unfolded N_def], of st1] obtain inc2 where
      b: "trace (processBatches e pdfs (g' * 3) st1) = trace st1 @ inc2"
         "schedView inc2 = concat (map (spec_groupBlock (finishTime e) N) [g' ..< (N + 2) div 3])"
         "mset (finishedItems inc2) = mset [g' * 3 ..< N]"
         "processedLog inc2 = [processedCount st1 + 1 ..< processedCount st1 + 1 + (N - g' * 3)]"
         "processedCount (processBatches e pdfs (g' * 3) st1) = processedCount st1 + (N - g' * 3)"
      unfolding N_def by blast
    from True have gm: "g < (N + 2) div 3" by arith
    have groups: "[g ..< (N + 2) div 3] = g # [g' ..< (N + 2) div 3]"
      unfolding g'_def using gm by (rule upt_conv_Cons)
    have his: "g * 3 \<le> hi" "hi \<le> N" using True by (simp_all add: hi_def)
    have tail: "[g' * 3 ..< N] = [hi ..< N]"
      by (cases "g * 3 + 3 \<le> N") (simp_all add: hi_def g'3)
    have items: "mset (finishedItems (inc1 @ inc2)) = mset [g * 3 ..< N]"
      unfolding finishedItems_append a(3) using b(3) upt_split3[OF his] by (simp add: tail)
    have cnt: "(hi - g * 3) + (N - g' * 3) = N - g * 3"
      using True by (cases "g * 3 + 3 \<le> N") (simp_all add: hi_def g'3)
    have "[processedCount st + 1 ..< processedCount st + 1 + (hi - g * 3)]
            @ [processedCount st + 1 + (hi - g * 3) ..< processedCount st + 1 + (hi - g * 3) + (N - g' * 3)]
          = [processedCount st + 1 ..< processedCount st + 1 + (hi - g * 3) + (N - g' * 3)]"
      by (rule upt_split3[symmetric]) simp_all
    then have logs: "processedLog (inc1 @ inc2) = [processedCount st + 1 ..< processedCount st + 1 + (N - g * 3)]"
      unfolding processedLog_append a(4) b(4) a(5) using cnt by (simp add: add.assoc)
    have view: "schedView (inc1 @ inc2)
          = concat (map (spec_groupBlock (finishTime e) N) [g ..< (N + 2) div 3])"
      unfolding groups schedView_append a(2) b(2) by simp
    have total: "processedCount (processBatches e pdfs (g * 3) st) = processedCount st + (N - g * 3)"
      unfolding unfold b(5) a(5) using cnt by simp
    have "trace (processBatches e pdfs (g * 3) st) = trace st @ (inc1 @ inc2)"
      unfolding unfold b(1) a(1) by simp
    with view items logs total show ?thesis
      unfolding N_def by blast
  qed
qed

lemma processBatches_barrier:
  assumes "startsAfterEarlierGroups (trace st)"
    and "\<forall>i < min (g * 3) (length pdfs). i \<in> set (finishedItems (trace st))"
  shows "startsAfterEarlierGroups (trace (processBatches e pdfs (g * 3) st))"
  using assms
proof (induction "length pdfs - g * 3" arbitrary: g st rule: less_induct)
  case less
  define N where "N = length pdfs"
  show ?case
  proof (cases "g * 3 < N")
    case False
    then have "processBatches e pdfs (g * 3) st = st"
      by (subst processBatches.simps) (simp add: N_def)
    with less.prems show ?thesis by simp
  next
    case True
    define st1 where "st1 = batchBody e pdfs (g * 3) st"
    define hi where "hi = min (g * 3 + 3) N"
    define g' where "g' = Suc g"
    have g'3: "g' * 3 = g * 3 + 3" by (simp add: g'_def)
    have unfold: "processBatches e pdfs (g * 3) st = processBatches e pdfs (g' * 3) st1"
      using True by (subst processBatches.simps) (simp add: N_def st1_def BATCH_SIZE_def g'3)
    from batchBody_run[of g pdfs e st] True obtain inc1 where
      a: "trace st1 = trace st @ inc1"
         "set (startedItems inc1) \<subseteq> {g * 3 ..< hi}"
         "finishedItems inc1 = sort_key (finishTime e) [g * 3 ..< hi]"
      unfolding N_def st1_def hi_def by blast
    have earlier: "i \<in> set (finishedItems (trace st))" if "j \<in> set (startedItems inc1)" "i div 3 < j div 3" for i j
    proof -
      from that(1) a(2) have "g * 3 \<le> j" "j < g * 3 + 3" by (auto simp: hi_def)
      then have "j div 3 = g" by arith
      with that(2) have "i < g * 3" by arith
      with True have "i < min (g * 3) (length pdfs)" by (simp add: N_def)
      with less.prems(2) show ?thesis by blast
    qed
    have b1: "startsAfterEarlierGroups (trace st1)"
      unfolding a(1) using less.prems(1) earlier by (intro startsAfterEarlierGroups_append) blast+
    have b2: "\<forall>i < min (g' * 3) (length pdfs). i \<in> set (finishedItems (trace st1))"
    proof (intro allI impI)
      fix i assume i: "i < min (g' * 3) (length pdfs)"
      show "i \<in> set (finishedItems (trace st1))"
      proof (cases "i < g * 3")
        case True
        with i have "i < min (g * 3) (length pdfs)" by simp
        with less.prems(2) show ?thesis unfolding a(1) by simp
      next
        case False
        with i have "i \<in> set [g * 3 ..< hi]" by (simp add: hi_def N_def g'3)
        then show ?thesis unfolding a(1) finishedItems_append a(3) by simp
      qed
    qed
    have "length pdfs - g' * 3 < length pdfs - g * 3" using True by (simp add: N_def g'3)
    from less.hyps[OF this b1 b2] show ?thesis unfolding unfold .
  qed
qed

section \<open>The claims about the per-item pipeline\<close>

text \<open>
  Claim C1. A document whose first extraction fails the bill-number validation should get a
  second call of the oracle, with a prompt made of the fixed preamble, the validator's
  reason and the original extraction instructions, and never a third. Evaluated at
  \<open>exEnv\<close>: the data of the first answer fails validation, and the run makes one call of the
  oracle only, with the built-in instructions, and saves and uploads the first data. The
  retry prompt of line 665 is never completed, because \<^verbatim>\<open>createExtractionPrompt\<close> is not
  defined and reading it throws inside the inner \<^verbatim>\<open>try\<close>.
\<close>

theorem retry_prompt_unbound_evaluation:
  "failsValidation exData1
   \<and> fst (processSinglePdf exEnv exPdf 0 0 initialState)
       = Inr \<lparr>success = True, outcome_filename = ''credit.pdf'', outcome_error = None\<rparr>
   \<and> oracleCalls (trace (snd (processSinglePdf exEnv exPdf 0 0 initialState))) = [ExtractionPrompt ''credit.pdf'']
   \<and> persisted (trace (snd (processSinglePdf exEnv exPdf 0 0 initialState))) = [exData1, exData1]"
  by code_simp

lemma parseAndValidate_unbound:
  "createExtractionPrompt e = None \<Longrightarrow>
     parseAndValidate e k rc p a st
       = (case JSON_parse e (stripJsonFence a) of None \<Rightarrow> Null | Some d \<Rightarrow> d, st)"
  by (auto simp: parseAndValidate_def split: option.splits sum.splits)


text \<open>
  Claim C5. A rate-limit error of the oracle should make the controller wait 10, 20, 40
  seconds and try again. Evaluated at \<open>exEnvRateLimit\<close>: the error's message holds
  \<^verbatim>\<open>rate_limit_error\<close>, yet the item ends as failed after one call of the oracle and no
  wait, because \<^verbatim>\<open>processPdfWithClaude\<close> catches the error itself and the \<^verbatim>\<open>catch\<close> of
  line 733 never sees it.
\<close>

theorem rate_limit_error_evaluation:
  "isRateLimitError (Error exRateLimitMessage)
   \<and> fst (processSinglePdf exEnvRateLimit exPdf 0 0 initialState)
       = Inr \<lparr>success = False, outcome_filename = ''credit.pdf'', outcome_error = Some exRateLimitMessage\<rparr>
   \<and> trace (snd (processSinglePdf exEnvRateLimit exPdf 0 0 initialState))
       = [Started 0, OracleCall 0 (ExtractionPrompt ''credit.pdf''), Finished 0 False 1 0 1]
   \<and> backoffs (trace (snd (processSinglePdf exEnvRateLimit exPdf 0 0 initialState))) = []"
  by code_simp

text \<open>
  Claim C9, as stated, at \<open>exEnvProse\<close>: the answer is not JSON, and the item ends as a
  success, counted in \<^verbatim>\<open>successCount\<close> and not in \<^verbatim>\<open>failCount\<close>.
\<close>

theorem unparsable_answer_counterexample:
  "JSON_parse exEnvProse (stripJsonFence ''I could not read this document.'') = None
   \<and> fst (processSinglePdf exEnvProse exPdf 0 0 initialState)
       = Inr \<lparr>success = True, outcome_filename = ''credit.pdf'', outcome_error = None\<rparr>
   \<and> successCount (snd (processSinglePdf exEnvProse exPdf 0 0 initialState)) = 1
   \<and> failCount (snd (processSinglePdf exEnvProse exPdf 0 0 initialState)) = 0"
  by code_simp

text \<open>
  Claim C9, amended. When \<^verbatim>\<open>JSON.parse\<close> throws on the answer of the oracle, and neither
  the write of \<^verbatim>\<open>savePdf\<close> nor the write of \<^verbatim>\<open>saveResult\<close> throws for the item, then
  \<^verbatim>\<open>processSinglePdf\<close> returns an outcome, not an exception, and the outcome is a success:
  the item is counted in \<^verbatim>\<open>successCount\<close> and not in \<^verbatim>\<open>failCount\<close>. The item is not retried:
  there is exactly one call of the oracle and no wait. Nothing is uploaded. The result is
  saved, with \<^verbatim>\<open>extractedData\<close> \<^verbatim>\<open>null\<close>, if and only if saving results is switched on
  (\<^verbatim>\<open>SAVE_RESULTS\<close>). Nothing is said of an item one of whose file writes throws.
\<close>

theorem unparsable_answer_counts_as_success:
  assumes "savePdf e k rc = None" and "fsWriteResult e k rc = None"
    and "messagesCreate e k rc (ExtractionPrompt (filename p)) = Inr answer"
    and "JSON_parse e (stripJsonFence answer) = None"
  shows "fst (processSinglePdf e p k rc st)
           = Inr \<lparr>success = True, outcome_filename = filename p, outcome_error = None\<rparr>
       \<and> trace (snd (processSinglePdf e p k rc st))
           = trace st @ [Started k, OracleCall k (ExtractionPrompt (filename p))]
             @ (if saveResults e then [SaveResult k Null] else [])
             @ [Finished k True (processedCount st + 1) (successCount st + 1) (failCount st)]
       \<and> successCount (snd (processSinglePdf e p k rc st)) = successCount st + 1
       \<and> failCount (snd (processSinglePdf e p k rc st)) = failCount st
       \<and> processedCount (snd (processSinglePdf e p k rc st)) = processedCount st + 1"
  using assms
  by (subst (1 2 3 4 5) processSinglePdf.simps)
     (simp add: tryBody_def processPdfWithClaude_def parseAndValidate_def saveResult_def
        finishSuccess_def emit_def Let_def)

theorem unparsable_answer_counts_as_success_witness:
  "fst (processSinglePdf exEnvProse exPdf 0 0 initialState)
     = Inr \<lparr>success = True, outcome_filename = ''credit.pdf'', outcome_error = None\<rparr>
   \<and> trace (snd (processSinglePdf exEnvProse exPdf 0 0 initialState))
       = [Started 0, OracleCall 0 (ExtractionPrompt ''credit.pdf''), SaveResult 0 Null, Finished 0 True 1 1 0]"
proof -
  have a: "savePdf exEnvProse 0 0 = None" "fsWriteResult exEnvProse 0 0 = None"
    "messagesCreate exEnvProse 0 0 (ExtractionPrompt (filename exPdf)) = Inr ''I could not read this document.''"
    "JSON_parse exEnvProse (stripJsonFence ''I could not read this document.'') = None"
    by (simp_all add: exEnvProse_def exEnv_def savePdf_def)
  have s: "saveResults exEnvProse" "filename exPdf = ''credit.pdf''"
    by (simp_all add: exEnvProse_def exEnv_def exPdf_def)
  from unparsable_answer_counts_as_success[OF a, of initialState]
  show ?thesis by (simp add: s initialState_def)
qed

lemma processSinglePdf_not_retried:
  assumes "tryBody e p k rc st = (Inl err, st1)" and "\<not> (isRateLimitError err \<and> rc < RETRY_ATTEMPTS)"
  shows "fst (processSinglePdf e p k rc st)
           = Inr \<lparr>success = False, outcome_filename = filename p, outcome_error = Some (message err)\<rparr>"
  using assms by (subst processSinglePdf.simps) (auto simp: finishFailure_def Let_def)

text \<open>
  Claim C7. Whatever the environment does, \<^verbatim>\<open>processSinglePdf\<close> returns a structured
  outcome and never an exception; an exception of its body that is not retried becomes
  the outcome \<^verbatim>\<open>{success: false, filename, error: message}\<close>; and in a batch run every item
  of every group is finished exactly once, so that no failure stops the later groups.
\<close>

theorem item_failures_are_contained:
  "(\<exists>out st'. processSinglePdf e p k rc st = (Inr out, st') \<and> outcome_filename out = filename p)
   \<and> (\<forall>err st1. tryBody e p k rc st = (Inl err, st1) \<and> \<not> (isRateLimitError err \<and> rc < RETRY_ATTEMPTS) \<longrightarrow>
          fst (processSinglePdf e p k rc st)
            = Inr \<lparr>success = False, outcome_filename = filename p, outcome_error = Some (message err)\<rparr>)
   \<and> mset (finishedItems (trace (processBatches e pdfs 0 initialState))) = mset [0 ..< length pdfs]"
proof (intro conjI allI impI)
  from processSinglePdf_run[of e p k rc st]
  show "\<exists>out st'. processSinglePdf e p k rc st = (Inr out, st') \<and> outcome_filename out = filename p"
    by blast
next
  fix err st1
  assume "tryBody e p k rc st = (Inl err, st1) \<and> \<not> (isRateLimitError err \<and> rc < RETRY_ATTEMPTS)"
  then show "fst (processSinglePdf e p k rc st)
            = Inr \<lparr>success = False, outcome_filename = filename p, outcome_error = Some (message err)\<rparr>"
    using processSinglePdf_not_retried by blast
next
  from processBatches_run[of e pdfs 0 initialState]
  show "mset (finishedItems (trace (processBatches e pdfs 0 initialState))) = mset [0 ..< length pdfs]"
    by (auto simp: initialState_def)
qed

theorem item_failures_are_contained_witness:
  "fst (processSinglePdf exEnvDisk (exPdfs ! 0) 0 0 initialState)
     = Inr \<lparr>success = False, outcome_filename = ''credit-0.pdf'',
            outcome_error = Some ''ENOSPC: no space left on device, write''\<rparr>
   \<and> mset (finishedItems (trace (processBatches exEnvDisk exPdfs 0 initialState))) = mset [0, 1, 2, 3, 4, 5, 6]"
proof -
  have p0: "exPdfs ! 0 = \<lparr>filename = ''credit-0.pdf'', content = []\<rparr>"
    by code_simp
  have n: "[0 ..< length exPdfs] = [0, 1, 2, 3, 4, 5, 6]" by code_simp
  have tb: "tryBody exEnvDisk (exPdfs ! 0) 0 0 initialState
              = (Inl (Error ''ENOSPC: no space left on device, write''), emit (Started 0) initialState)"
    by (simp add: tryBody_def savePdf_def exEnvDisk_def)
  have nr: "\<not> (isRateLimitError (Error ''ENOSPC: no space left on device, write'') \<and> 0 < RETRY_ATTEMPTS)"
    by code_simp
  from item_failures_are_contained[of exEnvDisk "exPdfs ! 0" 0 0 initialState exPdfs] tb nr
  show ?thesis unfolding n by (simp add: p0)
qed

text \<open>
  Claim C6. For every list of items, the scheduler's view of the run is the schedule of
  the specification: consecutive groups of at most 3 items in order, each group's items
  finished between its start and its end, a pause of 5000 ms after every group but the
  last. No item starts before every item of the earlier groups has finished. The
  processed counter goes through \<open>1, 2, ..., N\<close> and ends at \<open>N\<close>. For 7 items the groups
  have the sizes 3, 3 and 1.
\<close>

theorem batch_schedule:
  "schedView (trace (processBatches e pdfs 0 initialState)) = spec_schedule (finishTime e) (length pdfs)
   \<and> startsAfterEarlierGroups (trace (processBatches e pdfs 0 initialState))
   \<and> processedLog (trace (processBatches e pdfs 0 initialState)) = [1 ..< length pdfs + 1]
   \<and> processedCount (processBatches e pdfs 0 initialState) = length pdfs"
proof -
  have init: "trace initialState = []" "processedCount initialState = 0"
    by (simp_all add: initialState_def)
  from processBatches_run[of e pdfs 0 initialState] obtain inc where
    r: "trace (processBatches e pdfs 0 initialState) = inc"
       "schedView inc = concat (map (spec_groupBlock (finishTime e) (length pdfs)) [0 ..< (length pdfs + 2) div 3])"
       "processedLog inc = [1 ..< 1 + length pdfs]"
       "processedCount (processBatches e pdfs 0 initialState) = length pdfs"
    by (auto simp: init)
  have b0: "startsAfterEarlierGroups []"
    by (simp add: startsAfterEarlierGroups_def)
  have "startsAfterEarlierGroups (trace (processBatches e pdfs (0 * 3) initialState))"
    by (rule processBatches_barrier) (simp_all add: init b0)
  then have b: "startsAfterEarlierGroups (trace (processBatches e pdfs 0 initialState))" by simp
  have s: "spec_schedule (finishTime e) (length pdfs)
            = concat (map (spec_groupBlock (finishTime e) (length pdfs)) [0 ..< (length pdfs + 2) div 3])"
    by (simp add: spec_schedule_def spec_groups_length)
  from r b s show ?thesis by (simp add: add.commute)
qed

theorem batch_schedule_witness:
  "map length (spec_groups 7) = [3, 3, 1]
   \<and> schedView (trace (processBatches exEnvBatch exPdfs 0 initialState))
       = [GroupStart 3, ItemDone 2, ItemDone 1, ItemDone 0, GroupEnd, Pause 5000,
          GroupStart 3, ItemDone 5, ItemDone 4, ItemDone 3, GroupEnd, Pause 5000,
          GroupStart 1, ItemDone 6, GroupEnd]
   \<and> startsAfterEarlierGroups (trace (processBatches exEnvBatch exPdfs 0 initialState))
   \<and> processedLog (trace (processBatches exEnvBatch exPdfs 0 initialState)) = [1, 2, 3, 4, 5, 6, 7]
   \<and> processedCount (processBatches exEnvBatch exPdfs 0 initialState) = 7"
proof -
  have n: "length exPdfs = 7" by (simp add: exPdfs_def)
  have g: "map length (spec_groups 7) = [3, 3, 1]" by code_simp
  have s: "spec_schedule (finishTime exEnvBatch) 7
       = [GroupStart 3, ItemDone 2, ItemDone 1, ItemDone 0, GroupEnd, Pause 5000,
          GroupStart 3, ItemDone 5, ItemDone 4, ItemDone 3, GroupEnd, Pause 5000,
          GroupStart 1, ItemDone 6, GroupEnd]" by code_simp
  have u: "[1 ..< 7 + 1] = [1, 2, 3, 4, 5, 6, 7 :: nat]" by code_simp
  from batch_schedule[of exEnvBatch exPdfs] show ?thesis
    unfolding n s u using g by simp
qed

text \<open>
  Claim C3. The response parser should return the object for its serialization followed
  by trailing prose, fenced or not. The extraction of lines 649 to 654 only removes the
  fence: for the object \<^verbatim>\<open>{"a":1}\<close> followed by a trailing note, unfenced or with the whole
  string fenced, and followed by a bold note, the text handed to \<^verbatim>\<open>JSON.parse\<close> still ends
  with the prose, which \<^verbatim>\<open>JSON.parse\<close> rejects.
\<close>

theorem fence_strip_keeps_trailing_prose:
  "stripJsonFence (''{\"a\":1}'' @ ''\<newline>\<newline> trailing note'') = ''{\"a\":1}\<newline>\<newline> trailing note''
   \<and> stripJsonFence (''```json\<newline>'' @ ''{\"a\":1}'' @ ''\<newline>\<newline> trailing note'' @ ''\<newline>```'')
       = ''{\"a\":1}\<newline>\<newline> trailing note''
   \<and> stripJsonFence (''{\"a\":1}'' @ ''\<newline>\<newline>**bold note**'') = ''{\"a\":1}\<newline>\<newline>**bold note**''"
  by code_simp


section \<open>The claim about the refresh of the routing rules\<close>

lemma firstMatch_mem: "firstMatch f s ps = Inr (Some p) \<Longrightarrow> p \<in> set ps"
proof (induction ps)
  case Nil
  then show ?case by simp
next
  case (Cons q qs)
  then show ?case
    by (cases "criteria_from q") (auto split: if_splits sum.splits)
qed

lemma toProcessors_length: "toProcessors configs = Inr ps \<Longrightarrow> length ps = length configs"
  by (induction configs arbitrary: ps) (auto split: sum.splits)

lemma fetch_never_raises: "fst (fetchNetSuiteConfigs ne st) = Inr ()"
  by (auto simp: fetchNetSuiteConfigs_def split: prod.splits sum.splits)

lemma refreshTick_eq: "refreshTick ne st = (Inr (), snd (fetchNetSuiteConfigs ne st))"
  by (auto simp: refreshTick_def split: prod.splits sum.splits)

lemma fetch_state: "snd (fetchNetSuiteConfigs ne st) =
   (if \<not> netsuite_enabled ne \<or> restletUrl ne = [] then st else snd (tryFetch ne st))"
  by (auto simp: fetchNetSuiteConfigs_def split: prod.splits sum.splits)

text \<open>
  The cases of a refresh. The timer callback never raises. A successful response that
  carries a non-empty list of rules, each with a display name, replaces both rule lists with
  the processors made of it, as many as the response has rules, and afterwards a message is
  only ever matched to one of them; this is so whether or not the logging of lines 207 to
  213, which runs after the assignments, throws. When the integration is disabled, when the
  request fails, when the response is unsuccessful, when it has no list of rules or an empty
  one, and when a rule has no display name, the rule lists stay as they were.
\<close>

lemma refresh_cases:
  "fst (refreshTick ne st) = Inr ()
   \<and> (netsuite_enabled ne \<and> restletUrl ne \<noteq> [] \<and> axiosGet ne = Inr responseData
        \<and> getProp responseData ''success'' = Inr ok \<and> truthy ok
        \<and> ownProp responseData ''configs'' = Arr configs \<and> configs \<noteq> []
        \<and> toProcessors configs = Inr newProcessors \<longrightarrow>
          EMAIL_PROCESSORS (snd (refreshTick ne st)) = newProcessors
          \<and> CONFIG_processors (snd (refreshTick ne st)) = newProcessors
          \<and> length newProcessors = length configs
          \<and> (\<forall>m p. matchEmailProcessor (snd (refreshTick ne st)) m = Inr (Some p) \<longrightarrow> p \<in> set newProcessors))
   \<and> (\<not> netsuite_enabled ne \<or> restletUrl ne = [] \<longrightarrow> snd (refreshTick ne st) = st)
   \<and> (axiosGet ne = Inl err \<longrightarrow> snd (refreshTick ne st) = st)
   \<and> (axiosGet ne = Inr responseData \<and> (\<forall>ok. getProp responseData ''success'' = Inr ok \<longrightarrow> \<not> truthy ok) \<longrightarrow>
          snd (refreshTick ne st) = st)
   \<and> (axiosGet ne = Inr responseData \<and> (\<forall>configs. ownProp responseData ''configs'' \<noteq> Arr configs) \<longrightarrow>
          snd (refreshTick ne st) = st)
   \<and> (axiosGet ne = Inr responseData \<and> ownProp responseData ''configs'' = Arr [] \<longrightarrow>
          snd (refreshTick ne st) = st)
   \<and> (axiosGet ne = Inr responseData \<and> ownProp responseData ''configs'' = Arr configs
        \<and> toProcessors configs = Inl err \<longrightarrow> snd (refreshTick ne st) = st)"
proof (intro conjI impI)
  show "fst (refreshTick ne st) = Inr ()" by (simp add: refreshTick_eq)
next
  assume a: "netsuite_enabled ne \<and> restletUrl ne \<noteq> [] \<and> axiosGet ne = Inr responseData
        \<and> getProp responseData ''success'' = Inr ok \<and> truthy ok
        \<and> ownProp responseData ''configs'' = Arr configs \<and> configs \<noteq> []
        \<and> toProcessors configs = Inr newProcessors"
  then have s: "snd (refreshTick ne st) = st\<lparr>EMAIL_PROCESSORS := newProcessors, CONFIG_processors := newProcessors\<rparr>"
    by (simp add: refreshTick_eq fetch_state tryFetch_def)
  show "EMAIL_PROCESSORS (snd (refreshTick ne st)) = newProcessors" by (simp add: s)
  show "CONFIG_processors (snd (refreshTick ne st)) = newProcessors" by (simp add: s)
  from a show "length newProcessors = length configs" by (simp add: toProcessors_length)
  show "\<forall>m p. matchEmailProcessor (snd (refreshTick ne st)) m = Inr (Some p) \<longrightarrow> p \<in> set newProcessors"
    by (auto simp: s matchEmailProcessor_def dest: firstMatch_mem)
next
  assume "\<not> netsuite_enabled ne \<or> restletUrl ne = []"
  then show "snd (refreshTick ne st) = st" by (auto simp: refreshTick_eq fetch_state)
next
  assume "axiosGet ne = Inl err"
  then show "snd (refreshTick ne st) = st" by (simp add: refreshTick_eq fetch_state tryFetch_def)
next
  assume "axiosGet ne = Inr responseData \<and> (\<forall>ok. getProp responseData ''success'' = Inr ok \<longrightarrow> \<not> truthy ok)"
  then show "snd (refreshTick ne st) = st"
    by (auto simp: refreshTick_eq fetch_state tryFetch_def split: sum.splits)
next
  assume "axiosGet ne = Inr responseData \<and> (\<forall>configs. ownProp responseData ''configs'' \<noteq> Arr configs)"
  then show "snd (refreshTick ne st) = st"
    by (auto simp: refreshTick_eq fetch_state tryFetch_def split: sum.splits jsval.splits)
next
  assume "axiosGet ne = Inr responseData \<and> ownProp responseData ''configs'' = Arr []"
  then show "snd (refreshTick ne st) = st"
    by (auto simp: refreshTick_eq fetch_state tryFetch_def split: sum.splits)
next
  assume "axiosGet ne = Inr responseData \<and> ownProp responseData ''configs'' = Arr configs
        \<and> toProcessors configs = Inl err"
  then show "snd (refreshTick ne st) = st"
    by (auto simp: refreshTick_eq fetch_state tryFetch_def split: sum.splits)
qed

lemma refresh_cases_example:
  "matchEmailProcessor exConfigState exMarconeEmail = Inr (Some exOldProcessor)
   \<and> EMAIL_PROCESSORS (snd (refreshTick exNetsuite exConfigState)) = [exNewProcessor]
   \<and> CONFIG_processors (snd (refreshTick exNetsuite exConfigState)) = [exNewProcessor]
   \<and> matchEmailProcessor (snd (refreshTick exNetsuite exConfigState)) exMarconeEmail = Inr None
   \<and> snd (refreshTick (exNetsuite\<lparr>axiosGet := Inl (Error ''connect ETIMEDOUT'')\<rparr>) exConfigState) = exConfigState
   \<and> snd (refreshTick (exNetsuite\<lparr>axiosGet := Inr (Obj [(''success'', Bool True), (''configs'', Arr [])])\<rparr>) exConfigState)
       = exConfigState
   \<and> snd (refreshTick (exNetsuite\<lparr>axiosGet := Inr (Obj [(''success'', Bool False), (''error'', Str ''boom'')])\<rparr>) exConfigState)
       = exConfigState"
proof -
  have before: "matchEmailProcessor exConfigState exMarconeEmail = Inr (Some exOldProcessor)"
    by code_simp
  have h: "netsuite_enabled exNetsuite \<and> restletUrl exNetsuite \<noteq> []
        \<and> axiosGet exNetsuite = Inr (Obj [(''success'', Bool True), (''configs'', Arr [exConfig])])
        \<and> getProp (Obj [(''success'', Bool True), (''configs'', Arr [exConfig])]) ''success'' = Inr (Bool True)
        \<and> truthy (Bool True)
        \<and> ownProp (Obj [(''success'', Bool True), (''configs'', Arr [exConfig])]) ''configs'' = Arr [exConfig]
        \<and> [exConfig] \<noteq> []
        \<and> toProcessors [exConfig] = Inr [exNewProcessor]"
    by code_simp
  from refresh_cases[of exNetsuite exConfigState _ "Bool True" "[exConfig]" "[exNewProcessor]"] h
  have new: "EMAIL_PROCESSORS (snd (refreshTick exNetsuite exConfigState)) = [exNewProcessor]"
            "CONFIG_processors (snd (refreshTick exNetsuite exConfigState)) = [exNewProcessor]"
    by blast+
  have after: "matchEmailProcessor (snd (refreshTick exNetsuite exConfigState)) exMarconeEmail = Inr None"
    by code_simp
  have k1: "snd (refreshTick (exNetsuite\<lparr>axiosGet := Inl (Error ''connect ETIMEDOUT'')\<rparr>) exConfigState) = exConfigState"
    using refresh_cases[of "exNetsuite\<lparr>axiosGet := Inl (Error ''connect ETIMEDOUT'')\<rparr>" exConfigState _ _ _ _ "Error ''connect ETIMEDOUT''"]
    by simp
  have k2: "snd (refreshTick (exNetsuite\<lparr>axiosGet := Inr (Obj [(''success'', Bool True), (''configs'', Arr [])])\<rparr>) exConfigState)
       = exConfigState"
    using refresh_cases[of "exNetsuite\<lparr>axiosGet := Inr (Obj [(''success'', Bool True), (''configs'', Arr [])])\<rparr>" exConfigState
              "Obj [(''success'', Bool True), (''configs'', Arr [])]"]
    by simp
  have k3: "snd (refreshTick (exNetsuite\<lparr>axiosGet := Inr (Obj [(''success'', Bool False), (''error'', Str ''boom'')])\<rparr>) exConfigState)
       = exConfigState"
    using refresh_cases[of "exNetsuite\<lparr>axiosGet := Inr (Obj [(''success'', Bool False), (''error'', Str ''boom'')])\<rparr>" exConfigState
              "Obj [(''success'', Bool False), (''error'', Str ''boom'')]"]
    by (simp add: getProp_def)
  from before new after k1 k2 k3 show ?thesis by blast
qed


end
